theory Spec2Isabelle
  imports Complex_Main
begin

section \<open>Python values used by both programs\<close>

text \<open>
  The two programs of the repository are \<^verbatim>\<open>game.py\<close> (class \<^verbatim>\<open>Grid\<close>, a matrix of
  \<^verbatim>\<open>Cell\<close> objects, stepped by \<^verbatim>\<open>update_grid_full\<close> into a fresh matrix) and
  \<^verbatim>\<open>main.py\<close> (class \<^verbatim>\<open>Life\<close>, two tables of booleans, stepped in place by
  \<^verbatim>\<open>apply_rules\<close>). Python integers are unbounded, hence \<open>int\<close>. An exception is a value
  of \<open>py_error\<close>; a function that can raise returns \<open>py_error + 'a\<close>.
\<close>

datatype py_error = IndexError | ValueError | TypeError | ZeroDivisionError | OSError

text \<open>
  \<^verbatim>\<open>xs[i]\<close> on a Python list: an index below zero counts from the end, and an index that
  is still outside the list after that raises \<^verbatim>\<open>IndexError\<close>. \<open>list_pos\<close> is the position
  such an index addresses.
\<close>

definition list_pos :: "'a list \<Rightarrow> int \<Rightarrow> int" where
  "list_pos xs i = (if i < 0 then i + int (length xs) else i)"

definition getitem :: "'a list \<Rightarrow> int \<Rightarrow> py_error + 'a" where
  "getitem xs i =
     (if 0 \<le> list_pos xs i \<and> list_pos xs i < int (length xs)
      then Inr (xs ! nat (list_pos xs i))
      else Inl IndexError)"

text \<open>\<^verbatim>\<open>xs[i] = v\<close>: the same addressing, the list updated at that position.\<close>

definition setitem :: "'a list \<Rightarrow> int \<Rightarrow> 'a \<Rightarrow> py_error + 'a list" where
  "setitem xs i v =
     (if 0 \<le> list_pos xs i \<and> list_pos xs i < int (length xs)
      then Inr (xs[nat (list_pos xs i) := v])
      else Inl IndexError)"

text \<open>A list of rows is a \<open>w\<close> by \<open>h\<close> table: \<open>h\<close> rows, each of \<open>w\<close> items.\<close>

definition table_ok :: "int \<Rightarrow> int \<Rightarrow> 'a list list \<Rightarrow> bool" where
  "table_ok w h t \<longleftrightarrow> int (length t) = h \<and> list_all (\<lambda>row. int (length row) = w) t"

section \<open>game.py: the class Grid\<close>

text \<open>
  \<^verbatim>\<open>class Cell\<close> has the one field \<^verbatim>\<open>alive\<close>. A \<^verbatim>\<open>Grid\<close> stores \<^verbatim>\<open>x_size\<close>,
  \<^verbatim>\<open>y_size\<close> and \<^verbatim>\<open>cells\<close>, a list of rows; every \<^verbatim>\<open>Cell\<close> of the matrix is built by
  its own call \<^verbatim>\<open>Cell()\<close>, so no two positions share an object and the matrix is
  modelled by value.
\<close>

datatype cell = Cell (alive: bool)

record grid =
  x_size :: int
  y_size :: int
  cells :: "cell list list"

text \<open>
  \<^verbatim>\<open>Grid.__init__\<close>: \<^verbatim>\<open>[[Cell() for i in range(x_size)] for i in range(y_size)]\<close>.
  \<^verbatim>\<open>range(n)\<close> is empty for \<open>n \<le> 0\<close>, which is \<open>nat n = 0\<close>. Nothing in the
  constructor raises.
\<close>

definition Grid_init :: "int \<Rightarrow> int \<Rightarrow> grid" where
  "Grid_init xs ys =
     \<lparr>x_size = xs, y_size = ys,
      cells = replicate (nat ys) (replicate (nat xs) (Cell False))\<rparr>"

text \<open>
  \<^verbatim>\<open>flip_cell(x, y)\<close>: \<^verbatim>\<open>self.cells[y][x].alive = not self.cells[y][x].alive\<close>. The right
  side is read first (row \<open>y\<close>, then column \<open>x\<close>), then the same cell is written.
\<close>

definition flip_cell :: "grid \<Rightarrow> int \<Rightarrow> int \<Rightarrow> py_error + grid" where
  "flip_cell g x y =
     (case getitem (cells g) y of
        Inl e \<Rightarrow> Inl e
      | Inr row \<Rightarrow>
          (case getitem row x of
             Inl e \<Rightarrow> Inl e
           | Inr c \<Rightarrow>
               Inr (g\<lparr>cells := (cells g)[nat (list_pos (cells g) y) :=
                                   row[nat (list_pos row x) := Cell (\<not> alive c)]]\<rparr>)))"

text \<open>
  \<^verbatim>\<open>get_cell\<close> is declared \<^verbatim>\<open>@property\<close> and takes \<^verbatim>\<open>x\<close> and \<^verbatim>\<open>y\<close>: reading the
  attribute \<^verbatim>\<open>g.get_cell\<close> already calls the getter with \<^verbatim>\<open>self\<close> alone, which raises
  \<^verbatim>\<open>TypeError\<close> before any argument is passed. (Its body, never reached, indexes
  \<^verbatim>\<open>self.cells[x][y]\<close>; \<^verbatim>\<open>update_grid_full\<close> reads \<^verbatim>\<open>self.cells[y][x]\<close> directly.)
\<close>

definition get_cell :: "grid \<Rightarrow> int \<Rightarrow> int \<Rightarrow> py_error + cell" where
  "get_cell g x y = Inl TypeError"

text \<open>The matrix of a grid has \<^verbatim>\<open>y_size\<close> rows of \<^verbatim>\<open>x_size\<close> cells.\<close>

definition grid_ok :: "grid \<Rightarrow> bool" where
  "grid_ok g \<longleftrightarrow> table_ok (x_size g) (y_size g) (cells g)"

text \<open>
  \<^verbatim>\<open>get_neighbours(_x, _y)\<close> collects, row by row, the \<^verbatim>\<open>alive\<close> field of the cells
  around \<open>(_x, _y)\<close>, and \<^verbatim>\<open>None\<close> where the test \<^verbatim>\<open>y < 0 or y == self.y_size\<close>
  (respectively \<^verbatim>\<open>x < 0 or x == self.x_size\<close>) says the place is outside. The inner loop
  runs over \<^verbatim>\<open>range(_x - 1, _x + 2)\<close>, the outer one over \<^verbatim>\<open>range(_y - 1, _y + 2)\<close>.
  The parameters \<^verbatim>\<open>_x\<close>, \<^verbatim>\<open>_y\<close> are written \<open>x0\<close>, \<open>y0\<close>.
\<close>

fun get_neighbours_x :: "grid \<Rightarrow> int \<Rightarrow> int \<Rightarrow> int \<Rightarrow> int list \<Rightarrow> py_error + bool option list" where
  "get_neighbours_x g x0 y0 y [] = Inr []"
| "get_neighbours_x g x0 y0 y (x # xs) =
     (if y0 = y \<and> x0 = x then get_neighbours_x g x0 y0 y xs
      else if x < 0 \<or> x = x_size g then
        (case get_neighbours_x g x0 y0 y xs of
           Inl e \<Rightarrow> Inl e
         | Inr l \<Rightarrow> Inr (None # l))
      else
        (case getitem (cells g) y of
           Inl e \<Rightarrow> Inl e
         | Inr row \<Rightarrow>
             (case getitem row x of
                Inl e \<Rightarrow> Inl e
              | Inr c \<Rightarrow>
                  (case get_neighbours_x g x0 y0 y xs of
                     Inl e \<Rightarrow> Inl e
                   | Inr l \<Rightarrow> Inr (Some (alive c) # l)))))"

fun get_neighbours_y :: "grid \<Rightarrow> int \<Rightarrow> int \<Rightarrow> int list \<Rightarrow> py_error + bool option list" where
  "get_neighbours_y g x0 y0 [] = Inr []"
| "get_neighbours_y g x0 y0 (y # ys) =
     (if y < 0 \<or> y = y_size g then
        (case get_neighbours_y g x0 y0 ys of
           Inl e \<Rightarrow> Inl e
         | Inr l \<Rightarrow> Inr ([None, None, None] @ l))
      else
        (case get_neighbours_x g x0 y0 y [x0 - 1, x0, x0 + 1] of
           Inl e \<Rightarrow> Inl e
         | Inr l1 \<Rightarrow>
             (case get_neighbours_y g x0 y0 ys of
                Inl e \<Rightarrow> Inl e
              | Inr l \<Rightarrow> Inr (l1 @ l))))"

definition get_neighbours :: "grid \<Rightarrow> int \<Rightarrow> int \<Rightarrow> py_error + bool option list" where
  "get_neighbours g x0 y0 = get_neighbours_y g x0 y0 [y0 - 1, y0, y0 + 1]"

text \<open>\<^verbatim>\<open>sum(i if i is not None else 0 for i in neighbours)\<close>; \<^verbatim>\<open>True\<close> counts 1.\<close>

definition sum_neighbours :: "bool option list \<Rightarrow> int" where
  "sum_neighbours l =
     sum_list (map (\<lambda>i. case i of None \<Rightarrow> 0 | Some b \<Rightarrow> (if b then 1 else 0)) l)"

text \<open>\<^verbatim>\<open>_cells[y][x].alive = True\<close> on the matrix under construction.\<close>

definition set_alive :: "cell list list \<Rightarrow> int \<Rightarrow> int \<Rightarrow> bool \<Rightarrow> py_error + cell list list" where
  "set_alive m y x b =
     (case getitem m y of
        Inl e \<Rightarrow> Inl e
      | Inr row \<Rightarrow>
          (case getitem row x of
             Inl e \<Rightarrow> Inl e
           | Inr c \<Rightarrow> Inr (m[nat (list_pos m y) := row[nat (list_pos row x) := Cell b]])))"

text \<open>\<^verbatim>\<open>range(n)\<close> with one argument: \<open>0, 1, ..., n - 1\<close>, empty for \<open>n \<le> 0\<close>.\<close>

definition range1 :: "int \<Rightarrow> int list" where
  "range1 n = map int [0..<nat n]"

text \<open>
  \<^verbatim>\<open>update_grid_full\<close>: a fresh all-dead matrix \<^verbatim>\<open>_cells\<close> of the grid's size is filled
  from the old one, for \<^verbatim>\<open>y in range(self.y_size)\<close> and \<^verbatim>\<open>x in range(self.x_size)\<close>, and
  then replaces \<^verbatim>\<open>self.cells\<close>. A live cell is written alive when its neighbour sum is
  \<^verbatim>\<open>in range(2, 4)\<close>, a dead one when the sum is 3; every other cell keeps the
  \<^verbatim>\<open>False\<close> of the fresh matrix.
\<close>

fun update_grid_x :: "grid \<Rightarrow> cell list list \<Rightarrow> int \<Rightarrow> int list \<Rightarrow> py_error + cell list list" where
  "update_grid_x g m y [] = Inr m"
| "update_grid_x g m y (x # xs) =
     (case get_neighbours g x y of
        Inl e \<Rightarrow> Inl e
      | Inr neighbours \<Rightarrow>
          (case getitem (cells g) y of
             Inl e \<Rightarrow> Inl e
           | Inr row \<Rightarrow>
               (case getitem row x of
                  Inl e \<Rightarrow> Inl e
                | Inr c \<Rightarrow>
                    (if alive c then
                       (if 2 \<le> sum_neighbours neighbours \<and> sum_neighbours neighbours < 4 then
                          (case set_alive m y x True of
                             Inl e \<Rightarrow> Inl e
                           | Inr m' \<Rightarrow> update_grid_x g m' y xs)
                        else update_grid_x g m y xs)
                     else
                       (if sum_neighbours neighbours = 3 then
                          (case set_alive m y x True of
                             Inl e \<Rightarrow> Inl e
                           | Inr m' \<Rightarrow> update_grid_x g m' y xs)
                        else update_grid_x g m y xs)))))"

fun update_grid_y :: "grid \<Rightarrow> cell list list \<Rightarrow> int list \<Rightarrow> py_error + cell list list" where
  "update_grid_y g m [] = Inr m"
| "update_grid_y g m (y # ys) =
     (case update_grid_x g m y (range1 (x_size g)) of
        Inl e \<Rightarrow> Inl e
      | Inr m' \<Rightarrow> update_grid_y g m' ys)"

definition update_grid_full :: "grid \<Rightarrow> py_error + grid" where
  "update_grid_full g =
     (case update_grid_y g (replicate (nat (y_size g)) (replicate (nat (x_size g)) (Cell False)))
             (range1 (y_size g)) of
        Inl e \<Rightarrow> Inl e
      | Inr m \<Rightarrow> Inr (g\<lparr>cells := m\<rparr>))"

section \<open>main.py: the class Life\<close>

text \<open>
  A table of \<^verbatim>\<open>main.py\<close> is a Python list of row lists. The items of the outer list are
  references: several positions can hold the same row object, and an assignment through
  one of them then shows at all of them. A table is therefore modelled as the list of its
  row objects together with, for every position of the outer list, the number of the row
  object that position holds. Every table the program builds refers only to row objects
  it has: each number in \<open>row_refs\<close> is below the number of row objects.

  The two tables of a \<^verbatim>\<open>Life\<close> never have a row object in common: every assignment to
  \<^verbatim>\<open>self.cells_table\<close> or \<^verbatim>\<open>self.prev_cells_table\<close> in the source builds new rows (two
  separate expressions in the constructor, slices in \<^verbatim>\<open>randomize_table\<close>,
  \<^verbatim>\<open>copy.deepcopy\<close> elsewhere). So each table has row objects of its own.
\<close>

record table =
  row_objects :: "bool list list"
  row_refs :: "nat list"

text \<open>
  The row that position \<open>i\<close> of the outer list holds, and the table read by value:
  what \<^verbatim>\<open>t[0]\<close>, \<^verbatim>\<open>t[1]\<close>, ... are.
\<close>

definition table_row :: "table \<Rightarrow> nat \<Rightarrow> bool list" where
  "table_row t i = row_objects t ! (row_refs t ! i)"

definition table_rows :: "table \<Rightarrow> bool list list" where
  "table_rows t = map (table_row t) [0..<length (row_refs t)]"

text \<open>\<^verbatim>\<open>t[i]\<close>: Python indexing of the outer list, then the row object found there.\<close>

definition table_getitem :: "table \<Rightarrow> int \<Rightarrow> py_error + bool list" where
  "table_getitem t i =
     (case getitem (row_refs t) i of
        Inl e \<Rightarrow> Inl e
      | Inr k \<Rightarrow> Inr (row_objects t ! k))"

text \<open>
  \<^verbatim>\<open>t[i][j] = v\<close>: the row object at position \<open>i\<close> is changed in place, so every position
  that holds this object sees the new item.
\<close>

definition table_setitem :: "table \<Rightarrow> int \<Rightarrow> int \<Rightarrow> bool \<Rightarrow> py_error + table" where
  "table_setitem t i j v =
     (case getitem (row_refs t) i of
        Inl e \<Rightarrow> Inl e
      | Inr k \<Rightarrow>
          (case setitem (row_objects t ! k) j v of
             Inl e \<Rightarrow> Inl e
           | Inr row' \<Rightarrow> Inr (t\<lparr>row_objects := (row_objects t)[k := row']\<rparr>)))"

text \<open>
  \<^verbatim>\<open>[row] * n\<close>: one row object, held by each of the \<open>n\<close> positions (none for \<open>n \<le> 0\<close>).
\<close>

definition repeated_row :: "bool list \<Rightarrow> int \<Rightarrow> table" where
  "repeated_row row n = \<lparr>row_objects = [row], row_refs = replicate (nat n) 0\<rparr>"

text \<open>
  A list whose items are newly built rows, as a list comprehension of slices gives it:
  position \<open>i\<close> holds row object \<open>i\<close> and no other position does.
\<close>

definition fresh_rows :: "bool list list \<Rightarrow> table" where
  "fresh_rows rows = \<lparr>row_objects = rows, row_refs = [0..<length rows]\<rparr>"

text \<open>
  \<^verbatim>\<open>copy.deepcopy(t)\<close>: new row objects with the same items, shared among the positions
  exactly as in \<open>t\<close> (the memo of \<^verbatim>\<open>deepcopy\<close> keeps sharing). As every table has its own
  row objects, the copy is the same description.
\<close>

definition deepcopy :: "table \<Rightarrow> table" where
  "deepcopy t = t"

text \<open>
  The fields of \<^verbatim>\<open>Life\<close>. \<^verbatim>\<open>time.time()\<close> is a value the environment supplies.
\<close>

record life =
  width :: int
  height :: int
  clear_screen :: bool
  cells_table :: table
  prev_cells_table :: table
  start_time :: real
  frame_count :: int
  should_regenerate_screen :: bool
  new_width :: "int option"
  new_height :: "int option"

text \<open>
  The sizes used by the constructor and by \<^verbatim>\<open>update_window_size\<close>: those given, or,
  \<^verbatim>\<open>if width is None or height is None\<close>, the size of the terminal less one in each
  direction. \<open>terminal\<close> is the outcome of the call \<^verbatim>\<open>os.get_terminal_size()\<close>: the
  columns and lines, or the \<^verbatim>\<open>OSError\<close> it raises when there is no terminal. The call is
  made only when a size is missing.
\<close>

definition sizes_or_terminal ::
  "int option \<Rightarrow> int option \<Rightarrow> py_error + int \<times> int \<Rightarrow> py_error + int \<times> int" where
  "sizes_or_terminal w h terminal =
     (case (w, h) of
        (Some a, Some b) \<Rightarrow> Inr (a, b)
      | _ \<Rightarrow>
          (case terminal of
             Inl e \<Rightarrow> Inl e
           | Inr (term_width, term_height) \<Rightarrow> Inr (term_width - 1, term_height - 1)))"

text \<open>
  \<^verbatim>\<open>Life.__init__\<close>. Each of the two tables is \<^verbatim>\<open>[[False] * self.width] * self.height\<close>:
  one row of \<^verbatim>\<open>False\<close> (empty for a width \<open>\<le> 0\<close>), held by every position. The last
  statement, \<^verbatim>\<open>self.setup_sigwinch_handler()\<close>, calls \<^verbatim>\<open>signal.signal\<close>; \<open>handler\<close> is the
  outcome of that call (it raises outside the main thread), and when it raises no object
  is returned.
\<close>

definition Life_init ::
  "int option \<Rightarrow> int option \<Rightarrow> bool \<Rightarrow> py_error + int \<times> int \<Rightarrow> real \<Rightarrow> py_error + unit \<Rightarrow>
     py_error + life" where
  "Life_init start_width start_height clear terminal now handler =
     (case sizes_or_terminal start_width start_height terminal of
        Inl e \<Rightarrow> Inl e
      | Inr (w, h) \<Rightarrow>
          (case handler of
             Inl e \<Rightarrow> Inl e
           | Inr _ \<Rightarrow>
               Inr \<lparr>width = w, height = h, clear_screen = clear,
                    cells_table = repeated_row (replicate (nat w) False) h,
                    prev_cells_table = repeated_row (replicate (nat w) False) h,
                    start_time = now, frame_count = 0,
                    should_regenerate_screen = False, new_width = None, new_height = None\<rparr>))"

text \<open>\<^verbatim>\<open>update_window_size\<close>: the request is only recorded, for the next frame.\<close>

definition update_window_size ::
  "life \<Rightarrow> int option \<Rightarrow> int option \<Rightarrow> py_error + int \<times> int \<Rightarrow> py_error + life" where
  "update_window_size s w h terminal =
     (case sizes_or_terminal w h terminal of
        Inl e \<Rightarrow> Inl e
      | Inr (w', h') \<Rightarrow>
          Inr (s\<lparr>should_regenerate_screen := True, new_width := Some w', new_height := Some h'\<rparr>))"

text \<open>
  \<^verbatim>\<open>get_alive_neighbours\<close>: the eight index pairs in the order of the source, and the
  sum of \<^verbatim>\<open>self.prev_cells_table[row_idx][column_idx]\<close> over those that pass the test
  \<^verbatim>\<open>0 <= row_idx < self.height and 0 <= column_idx < self.width\<close>.
\<close>

definition neighbour_indices :: "int \<Rightarrow> int \<Rightarrow> (int \<times> int) list" where
  "neighbour_indices row_idx column_idx =
     [(row_idx - 1, column_idx), (row_idx, column_idx + 1),
      (row_idx + 1, column_idx), (row_idx, column_idx - 1),
      (row_idx - 1, column_idx - 1), (row_idx - 1, column_idx + 1),
      (row_idx + 1, column_idx - 1), (row_idx + 1, column_idx + 1)]"

fun sum_prev_cells :: "life \<Rightarrow> (int \<times> int) list \<Rightarrow> py_error + int" where
  "sum_prev_cells s [] = Inr 0"
| "sum_prev_cells s ((row_idx, column_idx) # rest) =
     (if 0 \<le> row_idx \<and> row_idx < height s \<and> 0 \<le> column_idx \<and> column_idx < width s then
        (case table_getitem (prev_cells_table s) row_idx of
           Inl e \<Rightarrow> Inl e
         | Inr row \<Rightarrow>
             (case getitem row column_idx of
                Inl e \<Rightarrow> Inl e
              | Inr b \<Rightarrow>
                  (case sum_prev_cells s rest of
                     Inl e \<Rightarrow> Inl e
                   | Inr n \<Rightarrow> Inr ((if b then 1 else 0) + n))))
      else sum_prev_cells s rest)"

definition get_alive_neighbours :: "life \<Rightarrow> int \<Rightarrow> int \<Rightarrow> py_error + int" where
  "get_alive_neighbours s row_idx column_idx =
     sum_prev_cells s (neighbour_indices row_idx column_idx)"

text \<open>\<^verbatim>\<open>self.cells_table[row_idx][column_idx] = v\<close>.\<close>

definition write_cell :: "life \<Rightarrow> int \<Rightarrow> int \<Rightarrow> bool \<Rightarrow> py_error + life" where
  "write_cell s row_idx column_idx v =
     (case table_setitem (cells_table s) row_idx column_idx v of
        Inl e \<Rightarrow> Inl e
      | Inr t \<Rightarrow> Inr (s\<lparr>cells_table := t\<rparr>))"

text \<open>
  The body of the two loops of \<^verbatim>\<open>apply_rules\<close> for one cell; \<open>is_alive\<close> is the item the
  inner \<^verbatim>\<open>enumerate\<close> hands over. A live cell with 2 or 3 neighbours and a dead cell
  without exactly 3 are not written at all.
\<close>

definition apply_rules_cell :: "life \<Rightarrow> int \<Rightarrow> int \<Rightarrow> bool \<Rightarrow> py_error + life" where
  "apply_rules_cell s row_idx column_idx is_alive =
     (case get_alive_neighbours s row_idx column_idx of
        Inl e \<Rightarrow> Inl e
      | Inr alive_neighbours_count \<Rightarrow>
          (if is_alive then
             (if alive_neighbours_count \<le> 1 then write_cell s row_idx column_idx False
              else if alive_neighbours_count \<ge> 4 then write_cell s row_idx column_idx False
              else Inr s)
           else
             (if alive_neighbours_count = 3 then write_cell s row_idx column_idx True
              else Inr s)))"

text \<open>
  \<^verbatim>\<open>for column_idx, is_alive in enumerate(row)\<close>: the row is the row object that position
  \<open>row_idx\<close> of \<^verbatim>\<open>self.cells_table\<close> holds, the very list being written, so \<open>is_alive\<close> is
  read from it when the iteration reaches the column. The body assigns items only, no
  list changes its length, and the indices visited are those of the row when the loop
  starts.
\<close>

fun apply_rules_columns :: "life \<Rightarrow> nat \<Rightarrow> nat list \<Rightarrow> py_error + life" where
  "apply_rules_columns s row_idx [] = Inr s"
| "apply_rules_columns s row_idx (column_idx # rest) =
     (case apply_rules_cell s (int row_idx) (int column_idx)
             (table_row (cells_table s) row_idx ! column_idx) of
        Inl e \<Rightarrow> Inl e
      | Inr s' \<Rightarrow> apply_rules_columns s' row_idx rest)"

fun apply_rules_rows :: "life \<Rightarrow> nat list \<Rightarrow> py_error + life" where
  "apply_rules_rows s [] = Inr s"
| "apply_rules_rows s (row_idx # rest) =
     (case apply_rules_columns s row_idx [0..<length (table_row (cells_table s) row_idx)] of
        Inl e \<Rightarrow> Inl e
      | Inr s' \<Rightarrow> apply_rules_rows s' rest)"

definition apply_rules :: "life \<Rightarrow> py_error + life" where
  "apply_rules s = apply_rules_rows s [0..<length (row_refs (cells_table s))]"

text \<open>
  \<^verbatim>\<open>range(start, stop, step)\<close> raises \<^verbatim>\<open>ValueError\<close> for a zero step. A slice
  \<^verbatim>\<open>xs[i:j]\<close> never raises: each bound counts from the end when negative and is then
  clamped to the list.
\<close>

definition py_range :: "int \<Rightarrow> int \<Rightarrow> int \<Rightarrow> py_error + int list" where
  "py_range start stop step =
     (if step = 0 then Inl ValueError
      else if 0 < step then
        Inr (map (\<lambda>k. start + int k * step) [0..<nat ((stop - start + step - 1) div step)])
      else
        Inr (map (\<lambda>k. start + int k * step) [0..<nat ((start - stop - step - 1) div (- step))]))"

definition slice_bound :: "nat \<Rightarrow> int \<Rightarrow> nat" where
  "slice_bound n i = (if i < 0 then nat (max 0 (i + int n)) else min (nat i) n)"

definition slice :: "'a list \<Rightarrow> int \<Rightarrow> int \<Rightarrow> 'a list" where
  "slice xs i j =
     take (slice_bound (length xs) j - slice_bound (length xs) i)
          (drop (slice_bound (length xs) i) xs)"

text \<open>
  \<^verbatim>\<open>random.choices([True, False], k=k)\<close>: \<open>k\<close> draws from the random source \<open>rnd\<close>
  (the \<open>i\<close>-th draw is \<open>rnd i\<close>), none for \<open>k \<le> 0\<close>.
\<close>

definition random_choices :: "(nat \<Rightarrow> bool) \<Rightarrow> int \<Rightarrow> bool list" where
  "random_choices rnd k = map rnd [0..<nat k]"

text \<open>
  \<^verbatim>\<open>randomize_table\<close>: every row of the new table is a slice, a list of its own, and the
  previous table is a deep copy of the new one.
\<close>

definition randomize_table :: "life \<Rightarrow> (nat \<Rightarrow> bool) \<Rightarrow> py_error + life" where
  "randomize_table s rnd =
     (let full_table_size = width s * height s;
          random_values = random_choices rnd full_table_size
      in case py_range 0 full_table_size (width s) of
           Inl e \<Rightarrow> Inl e
         | Inr starts \<Rightarrow>
             (let table = fresh_rows (map (\<lambda>i. slice random_values i (i + width s)) starts)
              in Inr (s\<lparr>cells_table := table, prev_cells_table := deepcopy table\<rparr>)))"

text \<open>
  The first block of the loop body of \<^verbatim>\<open>run\<close>:
  \<^verbatim>\<open>if self.new_width and self.new_height:\<close> is true when both are set and neither is 0
  (\<^verbatim>\<open>None\<close> and \<^verbatim>\<open>0\<close> are the false values; a negative number is true).
\<close>

definition run_resize :: "life \<Rightarrow> (nat \<Rightarrow> bool) \<Rightarrow> real \<Rightarrow> py_error + life" where
  "run_resize s rnd now =
     (case (new_width s, new_height s) of
        (Some w, Some h) \<Rightarrow>
          (if w \<noteq> 0 \<and> h \<noteq> 0 then
             (case randomize_table (s\<lparr>width := w, height := h\<rparr>) rnd of
                Inl e \<Rightarrow> Inl e
              | Inr s' \<Rightarrow>
                  Inr (s'\<lparr>new_width := None, new_height := None,
                           start_time := now, frame_count := 0\<rparr>))
           else Inr s)
      | _ \<Rightarrow> Inr s)"

text \<open>
  \<^verbatim>\<open>print_cells_table\<close>, as far as it can raise. The rows of text are built by indexing
  \<^verbatim>\<open>self.cells_table[row_idx][column_idx]\<close> over \<^verbatim>\<open>range(self.height)\<close> and
  \<^verbatim>\<open>range(self.width)\<close>. Then \<^verbatim>\<open>self.frame_count / (time.time() - self.start_time)\<close>
  divides by the elapsed time, which raises \<^verbatim>\<open>ZeroDivisionError\<close> when the clock has not
  advanced; \<open>print_time\<close> is that reading of the clock. Then
  \<^verbatim>\<open>output_rows[0][self.width - len(info):] = info\<close> overwrites the end of the first row;
  \<open>info\<close> is the formatted frame text, which the environment supplies (it shows the
  rate, a floating-point number). The result is the rows printed.
\<close>

fun output_row :: "life \<Rightarrow> int \<Rightarrow> int list \<Rightarrow> py_error + string" where
  "output_row s row_idx [] = Inr []"
| "output_row s row_idx (column_idx # rest) =
     (case table_getitem (cells_table s) row_idx of
        Inl e \<Rightarrow> Inl e
      | Inr row \<Rightarrow>
          (case getitem row column_idx of
             Inl e \<Rightarrow> Inl e
           | Inr b \<Rightarrow>
               (case output_row s row_idx rest of
                  Inl e \<Rightarrow> Inl e
                | Inr cs \<Rightarrow> Inr ((if b then CHR ''X'' else CHR '' '') # cs))))"

fun output_rows :: "life \<Rightarrow> int list \<Rightarrow> py_error + string list" where
  "output_rows s [] = Inr []"
| "output_rows s (row_idx # rest) =
     (case output_row s row_idx (range1 (width s)) of
        Inl e \<Rightarrow> Inl e
      | Inr r \<Rightarrow>
          (case output_rows s rest of
             Inl e \<Rightarrow> Inl e
           | Inr rs \<Rightarrow> Inr (r # rs)))"

definition print_cells_table :: "life \<Rightarrow> real \<Rightarrow> string \<Rightarrow> py_error + string list" where
  "print_cells_table s print_time info =
     (case output_rows s (range1 (height s)) of
        Inl e \<Rightarrow> Inl e
      | Inr rows \<Rightarrow>
          (if print_time - start_time s = 0 then Inl ZeroDivisionError
           else
             (case getitem rows 0 of
                Inl e \<Rightarrow> Inl e
              | Inr first_row \<Rightarrow>
                  Inr (rows[0 := take (slice_bound (length first_row)
                                         (width s - int (length info))) first_row @ info]))))"

text \<open>
  One generation, as the loop of \<^verbatim>\<open>run\<close> computes it: \<^verbatim>\<open>self.apply_rules()\<close> and then
  \<^verbatim>\<open>self.prev_cells_table = copy.deepcopy(self.cells_table)\<close>.
\<close>

definition run_generation :: "life \<Rightarrow> py_error + life" where
  "run_generation s =
     (case apply_rules s of
        Inl e \<Rightarrow> Inl e
      | Inr s' \<Rightarrow> Inr (s'\<lparr>prev_cells_table := deepcopy (cells_table s')\<rparr>))"

text \<open>
  One pass of the \<^verbatim>\<open>while\<close> loop of \<^verbatim>\<open>run\<close>: the pending resize, the generation, the
  printing, and \<^verbatim>\<open>self.frame_count += 1\<close>. \<open>now\<close> and \<open>print_time\<close> are the two readings
  of the clock, in the resize block and in \<^verbatim>\<open>print_cells_table\<close>.
\<close>

definition run_iteration ::
  "life \<Rightarrow> (nat \<Rightarrow> bool) \<Rightarrow> real \<Rightarrow> real \<Rightarrow> string \<Rightarrow> py_error + life" where
  "run_iteration s rnd now print_time info =
     (case run_resize s rnd now of
        Inl e \<Rightarrow> Inl e
      | Inr s1 \<Rightarrow>
          (case run_generation s1 of
             Inl e \<Rightarrow> Inl e
           | Inr s2 \<Rightarrow>
               (case print_cells_table s2 print_time info of
                  Inl e \<Rightarrow> Inl e
                | Inr printed \<Rightarrow> Inr (s2\<lparr>frame_count := frame_count s2 + 1\<rparr>))))"

text \<open>
  In a table with rows of its own, no two positions hold the same row object: position
  \<open>i\<close> holds row object \<open>i\<close>. These are the tables \<^verbatim>\<open>randomize_table\<close> builds, their deep
  copies, and what a pass of \<^verbatim>\<open>apply_rules\<close> makes of them; they are the only tables
  \<^verbatim>\<open>run\<close> ever steps.
\<close>

definition own_rows :: "table \<Rightarrow> bool" where
  "own_rows t \<longleftrightarrow> row_refs t = [0..<length (row_objects t)]"

text \<open>
  A well-formed \<^verbatim>\<open>Life\<close>: both tables have rows of their own, \<^verbatim>\<open>height\<close> of them, each
  of \<^verbatim>\<open>width\<close> cells.
\<close>

definition life_ok :: "life \<Rightarrow> bool" where
  "life_ok s \<longleftrightarrow>
     own_rows (cells_table s) \<and> own_rows (prev_cells_table s) \<and>
     table_ok (width s) (height s) (table_rows (cells_table s)) \<and>
     table_ok (width s) (height s) (table_rows (prev_cells_table s))"

section \<open>The specification's neighbour count and step\<close>

text \<open>
  The definitions of this section follow the words of the specification (sections 4.2 and
  4.3), not the code, so that the code can be compared with them. A table \<open>t\<close> is a list
  of rows of booleans, \<open>w\<close> and \<open>h\<close> its width and height.

  A neighbour place contributes 0 when it lies outside the grid bounds, otherwise 1 if the
  cell there is alive and 0 if not.
\<close>

definition spec_contribution :: "bool list list \<Rightarrow> int \<Rightarrow> int \<Rightarrow> int \<Rightarrow> int \<Rightarrow> int" where
  "spec_contribution t w h row col =
     (if 0 \<le> row \<and> row < h \<and> 0 \<le> col \<and> col < w
      then (if t ! nat row ! nat col then 1 else 0)
      else 0)"

text \<open>The eight relative offsets from \<open>(-1,-1)\<close> to \<open>(1,1)\<close>, without \<open>(0,0)\<close>.\<close>

definition spec_offsets :: "(int \<times> int) list" where
  "spec_offsets = [(- 1, - 1), (- 1, 0), (- 1, 1), (0, - 1), (0, 1), (1, - 1), (1, 0), (1, 1)]"

text \<open>\<^verbatim>\<open>count_live_neighbors(grid, row, col)\<close>.\<close>

definition spec_count_live_neighbors :: "bool list list \<Rightarrow> int \<Rightarrow> int \<Rightarrow> int \<Rightarrow> int \<Rightarrow> int" where
  "spec_count_live_neighbors t w h row col =
     sum_list (map (\<lambda>(dr, dc). spec_contribution t w h (row + dr) (col + dc)) spec_offsets)"

text \<open>
  The rule of \<^verbatim>\<open>step\<close>: a live cell is alive in the next generation iff \<open>n = 2\<close> or
  \<open>n = 3\<close>, a dead cell iff \<open>n = 3\<close>.
\<close>

definition spec_next_alive :: "bool \<Rightarrow> int \<Rightarrow> bool" where
  "spec_next_alive is_alive n = (if is_alive then n = 2 \<or> n = 3 else n = 3)"

text \<open>
  \<^verbatim>\<open>step(current_grid)\<close>: a new table of the same dimensions, every cell computed from
  the current table alone.
\<close>

definition spec_step :: "bool list list \<Rightarrow> int \<Rightarrow> int \<Rightarrow> bool list list" where
  "spec_step t w h =
     map (\<lambda>r. map (\<lambda>c. spec_next_alive (t ! r ! c)
                         (spec_count_live_neighbors t w h (int r) (int c)))
                [0..<nat w])
         [0..<nat h]"

text \<open>
  The specification asks that the outcome of a step "must not depend on the order in which
  cells are visited". To state this of the in-place pass, \<open>spec_pass_in_order\<close> runs the
  loop body of \<^verbatim>\<open>apply_rules\<close> (\<open>apply_rules_cell\<close>, with \<open>is_alive\<close> read from the
  row that the position holds in the current table, as the source's loops do) over the
  cells in any given order. The source
  itself visits the cells row by row.
\<close>

fun spec_pass_in_order :: "life \<Rightarrow> (nat \<times> nat) list \<Rightarrow> py_error + life" where
  "spec_pass_in_order s [] = Inr s"
| "spec_pass_in_order s ((row_idx, column_idx) # rest) =
     (case apply_rules_cell s (int row_idx) (int column_idx)
             (table_row (cells_table s) row_idx ! column_idx) of
        Inl e \<Rightarrow> Inl e
      | Inr s' \<Rightarrow> spec_pass_in_order s' rest)"

section \<open>Notions used in the proofs\<close>

text \<open>
  What \<^verbatim>\<open>get_neighbours\<close> is to append for the place \<open>(x, y)\<close>: the \<^verbatim>\<open>alive\<close> field of
  the cell there, or \<^verbatim>\<open>None\<close> outside the grid.
\<close>

definition neighbour_entry :: "grid \<Rightarrow> int \<Rightarrow> int \<Rightarrow> bool option" where
  "neighbour_entry g x y =
     (if 0 \<le> y \<and> y < y_size g \<and> 0 \<le> x \<and> x < x_size g
      then Some (alive (cells g ! nat y ! nat x))
      else None)"

text \<open>The matrix of a grid as a table of booleans.\<close>

definition alive_table :: "grid \<Rightarrow> bool list list" where
  "alive_table g = map (map alive) (cells g)"

text \<open>
  The value a pass of \<^verbatim>\<open>apply_rules\<close> leaves in cell \<open>(i, j)\<close> of a table with rows of
  its own: the rule applied to the cell of \<^verbatim>\<open>cells_table\<close> and to the neighbour count in
  \<^verbatim>\<open>prev_cells_table\<close>; \<open>next_table\<close> is the whole table of these values.
\<close>

definition next_of :: "life \<Rightarrow> nat \<Rightarrow> nat \<Rightarrow> bool" where
  "next_of s i j =
     spec_next_alive (table_rows (cells_table s) ! i ! j)
       (spec_count_live_neighbors (table_rows (prev_cells_table s)) (width s) (height s)
          (int i) (int j))"

definition next_table :: "life \<Rightarrow> bool list list" where
  "next_table s =
     map (\<lambda>i. map (\<lambda>j. next_of s i j) [0..<nat (width s)]) [0..<nat (height s)]"

text \<open>The same for \<^verbatim>\<open>update_grid_full\<close>, which reads the one matrix of the grid.\<close>

definition grid_next :: "grid \<Rightarrow> nat \<Rightarrow> nat \<Rightarrow> bool" where
  "grid_next g i j =
     spec_next_alive (alive (cells g ! i ! j))
       (spec_count_live_neighbors (alive_table g) (x_size g) (y_size g) (int i) (int j))"

definition grid_next_cells :: "grid \<Rightarrow> cell list list" where
  "grid_next_cells g =
     map (\<lambda>i. map (\<lambda>j. Cell (grid_next g i j)) [0..<nat (x_size g)]) [0..<nat (y_size g)]"

text \<open>The all-dead table of a given width and height.\<close>

definition dead_table :: "int \<Rightarrow> int \<Rightarrow> bool list list" where
  "dead_table w h = replicate (nat h) (replicate (nat w) False)"

text \<open>
  Two \<^verbatim>\<open>Life\<close> objects have the same grid when they agree on the dimensions and on
  both tables (the rows and which positions hold them), whatever their other fields hold; two outcomes of a pass are the same when
  both raise the same error or both return objects with the same grid.
\<close>

definition same_grid :: "life \<Rightarrow> life \<Rightarrow> bool" where
  "same_grid s1 s2 \<longleftrightarrow>
     width s1 = width s2 \<and> height s1 = height s2 \<and>
     cells_table s1 = cells_table s2 \<and> prev_cells_table s1 = prev_cells_table s2"

definition same_outcome :: "py_error + life \<Rightarrow> py_error + life \<Rightarrow> bool" where
  "same_outcome r1 r2 =
     (case (r1, r2) of
        (Inl e1, Inl e2) \<Rightarrow> e1 = e2
      | (Inr a, Inr b) \<Rightarrow> same_grid a b
      | _ \<Rightarrow> False)"

text \<open>
  The table \<^verbatim>\<open>randomize_table\<close> builds from the draws of \<open>rnd\<close> when width and height are
  positive: row \<open>i\<close> holds the draws \<open>i * w, ..., i * w + w - 1\<close>.
\<close>

definition random_table :: "(nat \<Rightarrow> bool) \<Rightarrow> int \<Rightarrow> int \<Rightarrow> bool list list" where
  "random_table rnd w h =
     map (\<lambda>i. map (\<lambda>j. rnd (i * nat w + j)) [0..<nat w]) [0..<nat h]"

text \<open>
  The blinker on a \<open>w\<close> by \<open>h\<close> table, \<open>(r, c)\<close> its middle cell: three live cells side
  by side in row \<open>r\<close>, columns \<open>c - 1\<close> to \<open>c + 1\<close>, every other cell dead; and three
  live cells one above the other in column \<open>c\<close>, rows \<open>r - 1\<close> to \<open>r + 1\<close> (those of
  them that are rows of the table), every other cell dead.
\<close>

definition blinker_row :: "int \<Rightarrow> int \<Rightarrow> int \<Rightarrow> int \<Rightarrow> bool list list" where
  "blinker_row w h r c =
     map (\<lambda>i. map (\<lambda>j. int i = r \<and> c - 1 \<le> int j \<and> int j \<le> c + 1) [0..<nat w]) [0..<nat h]"

definition blinker_column :: "int \<Rightarrow> int \<Rightarrow> int \<Rightarrow> int \<Rightarrow> bool list list" where
  "blinker_column w h r c =
     map (\<lambda>i. map (\<lambda>j. int j = c \<and> r - 1 \<le> int i \<and> int i \<le> r + 1) [0..<nat w]) [0..<nat h]"

section \<open>Example grids\<close>

text \<open>
  A 3 by 2 table with every cell alive, as a \<^verbatim>\<open>Life\<close> and as a \<^verbatim>\<open>Grid\<close>; the three
  cells in a row on a 3 by 3 table and the column they turn into; and the \<^verbatim>\<open>Life\<close> whose
  two tables hold the rows of a given table, each row in an object of its own.
\<close>

definition corner_table :: "bool list list" where
  "corner_table = [[True, True, True], [True, True, True]]"

definition corner_life :: life where
  "corner_life =
     \<lparr>width = 3, height = 2, clear_screen = True,
      cells_table = fresh_rows corner_table, prev_cells_table = fresh_rows corner_table,
      start_time = 0, frame_count = 0, should_regenerate_screen = False,
      new_width = None, new_height = None\<rparr>"

definition corner_grid :: grid where
  "corner_grid = \<lparr>x_size = 3, y_size = 2, cells = map (map Cell) corner_table\<rparr>"

definition row_of_three :: "bool list list" where
  "row_of_three = [[False, False, False], [True, True, True], [False, False, False]]"

definition column_of_three :: "bool list list" where
  "column_of_three = [[False, True, False], [False, True, False], [False, True, False]]"

definition life_of :: "int \<Rightarrow> int \<Rightarrow> bool list list \<Rightarrow> life" where
  "life_of w h t =
     \<lparr>width = w, height = h, clear_screen = True,
      cells_table = fresh_rows t, prev_cells_table = fresh_rows t,
      start_time = 0, frame_count = 0, should_regenerate_screen = False,
      new_width = None, new_height = None\<rparr>"

text \<open>
  On the 5 by 5 table: the row of three in the middle row and the column it turns into;
  the row of three in the top row, and the two cells that are left of it after one step.
\<close>

definition row_of_three_5 :: "bool list list" where
  "row_of_three_5 =
     [[False, False, False, False, False],
      [False, False, False, False, False],
      [False, True, True, True, False],
      [False, False, False, False, False],
      [False, False, False, False, False]]"

definition column_of_three_5 :: "bool list list" where
  "column_of_three_5 =
     [[False, False, False, False, False],
      [False, False, True, False, False],
      [False, False, True, False, False],
      [False, False, True, False, False],
      [False, False, False, False, False]]"

definition top_row_of_three :: "bool list list" where
  "top_row_of_three =
     [[False, True, True, True, False],
      [False, False, False, False, False],
      [False, False, False, False, False],
      [False, False, False, False, False],
      [False, False, False, False, False]]"

definition top_two_cells :: "bool list list" where
  "top_two_cells =
     [[False, False, True, False, False],
      [False, False, True, False, False],
      [False, False, False, False, False],
      [False, False, False, False, False],
      [False, False, False, False, False]]"

text \<open>The nine cells of a 3 by 3 table, column by column from the last column.\<close>

definition columns_backwards :: "(nat \<times> nat) list" where
  "columns_backwards =
     [(0, 2), (1, 2), (2, 2), (0, 1), (1, 1), (2, 1), (0, 0), (1, 0), (2, 0)]"

section \<open>Python lists: indexing inside and outside the list\<close>

lemma table_ok_nth:
  "table_ok w h t \<Longrightarrow> i < length t \<Longrightarrow> int (length (t ! i)) = w"
  by (simp add: table_ok_def list_all_length)

lemma table_ok_length: "table_ok w h t \<Longrightarrow> int (length t) = h"
  by (simp add: table_ok_def)

lemma list_pos_mod:
  assumes "- int (length xs) \<le> i" and "i < int (length xs)"
  shows "list_pos xs i = i mod int (length xs)"
proof (cases "i < 0")
  case True
  then have "0 \<le> i + int (length xs)" and "i + int (length xs) < int (length xs)"
    using assms by simp_all
  then have "(i + int (length xs)) mod int (length xs) = i + int (length xs)"
    by (rule mod_pos_pos_trivial)
  moreover have "(i + int (length xs)) mod int (length xs) = i mod int (length xs)"
    by (rule mod_add_self2)
  ultimately show ?thesis
    using True by (simp add: list_pos_def)
next
  case False
  then show ?thesis
    using assms by (simp add: list_pos_def)
qed

lemma getitem_in_range:
  assumes "- int (length xs) \<le> i" and "i < int (length xs)"
  shows "getitem xs i = Inr (xs ! nat (i mod int (length xs)))"
proof -
  have "0 < int (length xs)"
    using assms by linarith
  then have "0 \<le> i mod int (length xs) \<and> i mod int (length xs) < int (length xs)"
    by simp
  then show ?thesis
    unfolding getitem_def using assms by (simp add: list_pos_mod)
qed

lemma getitem_out_of_range:
  "i < - int (length xs) \<or> int (length xs) \<le> i \<Longrightarrow> getitem xs i = Inl IndexError"
  unfolding getitem_def list_pos_def by auto

lemma getitem_nat:
  "i < length xs \<Longrightarrow> getitem xs (int i) = Inr (xs ! i)"
  unfolding getitem_def list_pos_def by simp

lemma mod_index_less:
  assumes "- int (length xs) \<le> i" and "i < int (length xs)"
  shows "nat (i mod int (length xs)) < length xs"
proof -
  have "0 < int (length xs)"
    using assms by linarith
  then have "0 \<le> i mod int (length xs) \<and> i mod int (length xs) < int (length xs)"
    by simp
  then show ?thesis by linarith
qed

section \<open>main.py: tables and the rows their positions hold\<close>

lemma length_table_rows: "length (table_rows t) = length (row_refs t)"
  by (simp add: table_rows_def)

lemma table_rows_nth: "i < length (row_refs t) \<Longrightarrow> table_rows t ! i = table_row t i"
  by (simp add: table_rows_def)

lemma table_rows_fresh: "table_rows (fresh_rows T) = T"
  by (rule nth_equalityI) (simp_all add: table_rows_def table_row_def fresh_rows_def)

lemma own_rows_fresh: "own_rows (fresh_rows T)"
  by (simp add: own_rows_def fresh_rows_def)

lemma own_rows_objects: "own_rows t \<Longrightarrow> row_objects t = table_rows t"
  by (rule nth_equalityI) (simp_all add: own_rows_def table_rows_def table_row_def)

lemma fresh_rows_of_own: "own_rows t \<Longrightarrow> fresh_rows (table_rows t) = t"
  by (simp add: own_rows_objects [symmetric] fresh_rows_def own_rows_def)

lemma table_getitem_nat:
  "i < length (table_rows t) \<Longrightarrow> table_getitem t (int i) = Inr (table_rows t ! i)"
  by (simp add: table_getitem_def getitem_nat table_rows_def table_row_def)

lemma table_setitem_nat:
  assumes "own_rows t" and "r < length (table_rows t)" and "c < length (table_rows t ! r)"
  shows "table_setitem t (int r) (int c) v =
           Inr (fresh_rows ((table_rows t)[r := (table_rows t ! r)[c := v]]))"
proof -
  have objs: "row_objects t = table_rows t"
    using assms(1) by (rule own_rows_objects)
  have refs: "row_refs t = [0..<length (table_rows t)]"
    using assms(1) objs by (simp add: own_rows_def)
  have pos: "getitem (row_refs t) (int r) = Inr r"
    using assms(2) refs getitem_nat [of r "row_refs t"] by simp
  have "t\<lparr>row_objects := (table_rows t)[r := (table_rows t ! r)[c := v]]\<rparr> =
          fresh_rows ((table_rows t)[r := (table_rows t ! r)[c := v]])"
    using refs by (simp add: fresh_rows_def)
  then show ?thesis
    using assms(3) by (simp add: table_setitem_def pos objs setitem_def list_pos_def)
qed

section \<open>game.py: flip_cell and the bounds of a grid\<close>

text \<open>
  Claim C5, as the code has it. \<^verbatim>\<open>flip_cell(x, y)\<close> does no bounds check of its own: it
  indexes two Python lists. On a grid whose matrix has \<^verbatim>\<open>y_size\<close> rows of \<^verbatim>\<open>x_size\<close>
  cells, a call with \<open>- y_size \<le> y < y_size\<close> and \<open>- x_size \<le> x < x_size\<close> succeeds and
  toggles exactly the cell in row \<open>y mod y_size\<close> and column \<open>x mod x_size\<close> (a negative
  coordinate counts from the end), every other cell and both sizes staying as they are;
  every other call raises \<^verbatim>\<open>IndexError\<close> and returns no grid.
\<close>

theorem flip_cell_python_bounds:
  assumes ok: "grid_ok g"
  shows "(- y_size g \<le> y \<and> y < y_size g \<and> - x_size g \<le> x \<and> x < x_size g \<longrightarrow>
            flip_cell g x y =
              Inr (g\<lparr>cells := (cells g)[nat (y mod y_size g) :=
                     (cells g ! nat (y mod y_size g))[nat (x mod x_size g) :=
                        Cell (\<not> alive (cells g ! nat (y mod y_size g) ! nat (x mod x_size g)))]]\<rparr>)) \<and>
         (\<not> (- y_size g \<le> y \<and> y < y_size g \<and> - x_size g \<le> x \<and> x < x_size g) \<longrightarrow>
            flip_cell g x y = Inl IndexError)"
proof (intro conjI impI)
  have len: "int (length (cells g)) = y_size g"
    using ok by (simp add: grid_ok_def table_ok_length)
  let ?i = "nat (y mod y_size g)"
  have in_y: "?i < length (cells g) \<and> getitem (cells g) y = Inr (cells g ! ?i) \<and>
      list_pos (cells g) y = y mod y_size g \<and> int (length (cells g ! ?i)) = x_size g"
    if "- y_size g \<le> y \<and> y < y_size g"
  proof -
    have i: "?i < length (cells g)"
      using that len mod_index_less [of "cells g" y] by simp
    moreover have "getitem (cells g) y = Inr (cells g ! ?i)"
      using that len getitem_in_range [of "cells g" y] by simp
    moreover have "list_pos (cells g) y = y mod y_size g"
      using that len list_pos_mod [of "cells g" y] by simp
    moreover have "int (length (cells g ! ?i)) = x_size g"
      using ok i by (simp add: grid_ok_def table_ok_nth)
    ultimately show ?thesis by simp
  qed
  {
    assume in_range: "- y_size g \<le> y \<and> y < y_size g \<and> - x_size g \<le> x \<and> x < x_size g"
    then have row: "getitem (cells g) y = Inr (cells g ! ?i)"
      and py: "list_pos (cells g) y = y mod y_size g"
      and wlen: "int (length (cells g ! ?i)) = x_size g"
      using in_y by simp_all
    have cell: "getitem (cells g ! ?i) x = Inr (cells g ! ?i ! nat (x mod x_size g))"
      using in_range wlen getitem_in_range [of "cells g ! ?i" x] by simp
    have px: "list_pos (cells g ! ?i) x = x mod x_size g"
      using in_range wlen list_pos_mod [of "cells g ! ?i" x] by simp
    show "flip_cell g x y =
              Inr (g\<lparr>cells := (cells g)[nat (y mod y_size g) :=
                     (cells g ! nat (y mod y_size g))[nat (x mod x_size g) :=
                        Cell (\<not> alive (cells g ! nat (y mod y_size g) ! nat (x mod x_size g)))]]\<rparr>)"
      unfolding flip_cell_def by (simp add: row cell py px)
  }
  {
    assume out: "\<not> (- y_size g \<le> y \<and> y < y_size g \<and> - x_size g \<le> x \<and> x < x_size g)"
    show "flip_cell g x y = Inl IndexError"
    proof (cases "- y_size g \<le> y \<and> y < y_size g")
      case False
      then have "getitem (cells g) y = Inl IndexError"
        using len getitem_out_of_range [of y "cells g"] by auto
      then show ?thesis
        unfolding flip_cell_def by simp
    next
      case True
      then have row: "getitem (cells g) y = Inr (cells g ! ?i)"
        and wlen: "int (length (cells g ! ?i)) = x_size g"
        using in_y by simp_all
      from True out have "x < - x_size g \<or> x_size g \<le> x"
        by auto
      then have "getitem (cells g ! ?i) x = Inl IndexError"
        using wlen getitem_out_of_range [of x "cells g ! ?i"] by auto
      then show ?thesis
        unfolding flip_cell_def by (simp add: row)
    qed
  }
qed

text \<open>
  On the 3 by 2 all-dead grid, \<^verbatim>\<open>flip_cell(-3, 1)\<close> toggles the first cell of the second
  row and \<^verbatim>\<open>flip_cell(3, 1)\<close> raises.
\<close>

theorem flip_cell_python_bounds_witness:
  "grid_ok (Grid_init 3 2) \<and>
   flip_cell (Grid_init 3 2) (- 3) 1 =
     Inr \<lparr>x_size = 3, y_size = 2,
          cells = [[Cell False, Cell False, Cell False], [Cell True, Cell False, Cell False]]\<rparr> \<and>
   flip_cell (Grid_init 3 2) 3 1 = Inl IndexError"
proof -
  have ok: "grid_ok (Grid_init 3 2)"
    by (simp add: grid_ok_def table_ok_def Grid_init_def list_all_length)
  show ?thesis
    using ok flip_cell_python_bounds [OF ok, of 1 "- 3"] flip_cell_python_bounds [OF ok, of 1 3]
    by (simp add: Grid_init_def numeral_2_eq_2 numeral_3_eq_3)
qed

text \<open>
  Claim C5 as the spec states it fails: on the 2 by 2 all-dead grid the call
  \<^verbatim>\<open>flip_cell(-1, -1)\<close>, whose coordinates are outside \<open>[0, 2)\<close>, raises nothing and turns
  the cell in the last row and last column alive.
\<close>

theorem flip_cell_negative_index_counterexample:
  "flip_cell (Grid_init 2 2) (- 1) (- 1) =
     Inr \<lparr>x_size = 2, y_size = 2,
          cells = [[Cell False, Cell False], [Cell False, Cell True]]\<rparr>"
  by (simp add: flip_cell_def Grid_init_def getitem_def list_pos_def numeral_2_eq_2)

section \<open>The neighbour counts of both programs\<close>

lemma spec_contribution_range: "0 \<le> spec_contribution t w h r c \<and> spec_contribution t w h r c \<le> 1"
  by (simp add: spec_contribution_def)

lemma spec_count_range:
  "0 \<le> spec_count_live_neighbors t w h r c \<and> spec_count_live_neighbors t w h r c \<le> 8"
proof -
  have b: "\<And>dr dc. 0 \<le> spec_contribution t w h (r + dr) (c + dc) \<and>
                    spec_contribution t w h (r + dr) (c + dc) \<le> 1"
    by (rule spec_contribution_range)
  show ?thesis
    unfolding spec_count_live_neighbors_def spec_offsets_def
    using b [of "- 1" "- 1"] b [of "- 1" 0] b [of "- 1" 1] b [of 0 "- 1"] b [of 0 1]
      b [of 1 "- 1"] b [of 1 0] b [of 1 1]
    by simp
qed

lemma sum_prev_cells_Cons:
  assumes "table_ok (width s) (height s) (table_rows (prev_cells_table s))"
  shows "sum_prev_cells s ((r, c) # rest) =
           (case sum_prev_cells s rest of
              Inl e \<Rightarrow> Inl e
            | Inr n \<Rightarrow>
                Inr (spec_contribution (table_rows (prev_cells_table s)) (width s) (height s) r c
                     + n))"
proof (cases "0 \<le> r \<and> r < height s \<and> 0 \<le> c \<and> c < width s")
  case False
  then show ?thesis
    by (auto simp: spec_contribution_def split: sum.splits)
next
  case True
  let ?P = "table_rows (prev_cells_table s)"
  have len: "int (length ?P) = height s"
    using assms by (rule table_ok_length)
  with True have r: "nat r < length ?P" by linarith
  then have row: "table_getitem (prev_cells_table s) r = Inr (?P ! nat r)"
    using table_getitem_nat [of "nat r" "prev_cells_table s"] True by simp
  have "int (length (?P ! nat r)) = width s"
    using assms r by (rule table_ok_nth)
  with True have "nat c < length (?P ! nat r)" by linarith
  then have cell: "getitem (?P ! nat r) c = Inr (?P ! nat r ! nat c)"
    using getitem_nat [of "nat c" "?P ! nat r"] True by simp
  show ?thesis
    using True by (simp add: row cell spec_contribution_def split: sum.splits)
qed

lemma get_alive_neighbours_spec:
  assumes "table_ok (width s) (height s) (table_rows (prev_cells_table s))"
  shows "get_alive_neighbours s r c =
           Inr (spec_count_live_neighbors (table_rows (prev_cells_table s)) (width s) (height s)
                  r c)"
  unfolding get_alive_neighbours_def neighbour_indices_def spec_count_live_neighbors_def
    spec_offsets_def
  by (simp add: sum_prev_cells_Cons [OF assms] del: sum_prev_cells.simps(2))

lemma grid_cell_read:
  assumes ok: "grid_ok g" and y: "0 \<le> y" "y < y_size g" and x: "0 \<le> x" "x < x_size g"
  shows "getitem (cells g) y = Inr (cells g ! nat y)"
    and "getitem (cells g ! nat y) x = Inr (cells g ! nat y ! nat x)"
    and "nat y < length (cells g)"
    and "nat x < length (cells g ! nat y)"
proof -
  have "int (length (cells g)) = y_size g"
    using ok by (simp add: grid_ok_def table_ok_length)
  with y show ly: "nat y < length (cells g)" by linarith
  then show "getitem (cells g) y = Inr (cells g ! nat y)"
    using getitem_nat [of "nat y" "cells g"] y by simp
  have "int (length (cells g ! nat y)) = x_size g"
    using ok ly by (simp add: grid_ok_def table_ok_nth)
  with x show lx: "nat x < length (cells g ! nat y)" by linarith
  then show "getitem (cells g ! nat y) x = Inr (cells g ! nat y ! nat x)"
    using getitem_nat [of "nat x" "cells g ! nat y"] x by simp
qed

lemma get_neighbours_x_Cons:
  assumes ok: "grid_ok g" and y: "0 \<le> y" "y < y_size g"
    and x: "- 1 \<le> x" "x \<le> x_size g" and other: "\<not> (y0 = y \<and> x0 = x)"
  shows "get_neighbours_x g x0 y0 y (x # xs) =
           (case get_neighbours_x g x0 y0 y xs of
              Inl e \<Rightarrow> Inl e
            | Inr l \<Rightarrow> Inr (neighbour_entry g x y # l))"
proof (cases "x < 0 \<or> x = x_size g")
  case True
  then show ?thesis
    using other by (auto simp: neighbour_entry_def split: sum.splits)
next
  case False
  then have xin: "0 \<le> x" "x < x_size g" using x by auto
  show ?thesis
    using other False y xin grid_cell_read(1,2) [OF ok y xin]
    by (auto simp: neighbour_entry_def split: sum.splits)
qed

lemma get_neighbours_x_self:
  "get_neighbours_x g x0 y0 y0 (x0 # xs) = get_neighbours_x g x0 y0 y0 xs"
  by simp

lemma get_neighbours_y_Cons:
  "get_neighbours_y g x0 y0 (y # ys) =
     (case (if y < 0 \<or> y = y_size g
            then Inr [None, None, None]
            else get_neighbours_x g x0 y0 y [x0 - 1, x0, x0 + 1]) of
        Inl e \<Rightarrow> Inl e
      | Inr l1 \<Rightarrow>
          (case get_neighbours_y g x0 y0 ys of
             Inl e \<Rightarrow> Inl e
           | Inr l \<Rightarrow> Inr (l1 @ l)))"
  by (simp split: sum.splits del: get_neighbours_x.simps)

lemma get_neighbours_eight:
  assumes ok: "grid_ok g" and x0: "0 \<le> x0" "x0 < x_size g" and y0: "0 \<le> y0" "y0 < y_size g"
  shows "get_neighbours g x0 y0 =
           Inr [neighbour_entry g (x0 - 1) (y0 - 1), neighbour_entry g x0 (y0 - 1),
                neighbour_entry g (x0 + 1) (y0 - 1),
                neighbour_entry g (x0 - 1) y0, neighbour_entry g (x0 + 1) y0,
                neighbour_entry g (x0 - 1) (y0 + 1), neighbour_entry g x0 (y0 + 1),
                neighbour_entry g (x0 + 1) (y0 + 1)]"
proof -
  have other_row: "get_neighbours_x g x0 y0 y [x0 - 1, x0, x0 + 1] =
      Inr [neighbour_entry g (x0 - 1) y, neighbour_entry g x0 y, neighbour_entry g (x0 + 1) y]"
    if "0 \<le> y" "y < y_size g" "y \<noteq> y0" for y
    using that x0
    by (simp add: get_neighbours_x_Cons [OF ok] del: get_neighbours_x.simps(2))
  have own_row: "get_neighbours_x g x0 y0 y0 [x0 - 1, x0, x0 + 1] =
      Inr [neighbour_entry g (x0 - 1) y0, neighbour_entry g (x0 + 1) y0]"
    using x0 y0
    by (simp add: get_neighbours_x_Cons [OF ok] get_neighbours_x_self
        del: get_neighbours_x.simps(2))
  have outside: "neighbour_entry g x y = None" if "y < 0 \<or> y = y_size g" for x y
    using that by (auto simp: neighbour_entry_def)
  have above: "(if y0 - 1 < 0 \<or> y0 - 1 = y_size g
        then Inr [None, None, None]
        else get_neighbours_x g x0 y0 (y0 - 1) [x0 - 1, x0, x0 + 1]) =
      Inr [neighbour_entry g (x0 - 1) (y0 - 1), neighbour_entry g x0 (y0 - 1),
           neighbour_entry g (x0 + 1) (y0 - 1)]"
    using y0 other_row [of "y0 - 1"] outside [of "y0 - 1"] by auto
  have below: "(if y0 + 1 < 0 \<or> y0 + 1 = y_size g
        then Inr [None, None, None]
        else get_neighbours_x g x0 y0 (y0 + 1) [x0 - 1, x0, x0 + 1]) =
      Inr [neighbour_entry g (x0 - 1) (y0 + 1), neighbour_entry g x0 (y0 + 1),
           neighbour_entry g (x0 + 1) (y0 + 1)]"
    using y0 other_row [of "y0 + 1"] outside [of "y0 + 1"] by auto
  have mid: "(if y0 < 0 \<or> y0 = y_size g
        then Inr [None, None, None]
        else get_neighbours_x g x0 y0 y0 [x0 - 1, x0, x0 + 1]) =
      Inr [neighbour_entry g (x0 - 1) y0, neighbour_entry g (x0 + 1) y0]"
    using y0 own_row by auto
  show ?thesis
    by (simp only: get_neighbours_def get_neighbours_y_Cons above mid below
        get_neighbours_y.simps(1) sum.case append.simps)
qed

lemma entry_contribution:
  assumes ok: "grid_ok g"
  shows "(case neighbour_entry g x y of None \<Rightarrow> 0 | Some b \<Rightarrow> (if b then 1 else 0)) =
           spec_contribution (alive_table g) (x_size g) (y_size g) y x"
proof (cases "0 \<le> y \<and> y < y_size g \<and> 0 \<le> x \<and> x < x_size g")
  case False
  then show ?thesis
    by (auto simp: neighbour_entry_def spec_contribution_def)
next
  case True
  then have "nat y < length (cells g)" and "nat x < length (cells g ! nat y)"
    using grid_cell_read(3,4) [OF ok, of y x] by simp_all
  then show ?thesis
    using True by (simp add: neighbour_entry_def spec_contribution_def alive_table_def)
qed

lemma get_neighbours_spec:
  assumes ok: "grid_ok g" and x0: "0 \<le> x0" "x0 < x_size g" and y0: "0 \<le> y0" "y0 < y_size g"
  shows "\<exists>l. get_neighbours g x0 y0 = Inr l \<and> length l = 8 \<and>
           sum_neighbours l =
             spec_count_live_neighbors (alive_table g) (x_size g) (y_size g) y0 x0"
  unfolding get_neighbours_eight [OF ok x0 y0]
  by (simp add: sum_neighbours_def entry_contribution [OF ok] spec_count_live_neighbors_def
      spec_offsets_def)

section \<open>main.py: what a pass of apply_rules leaves in the table\<close>

lemma table_ok_update:
  assumes "table_ok w h t" and "r < length t"
  shows "table_ok w h (t[r := (t ! r)[c := v]])"
  using assms by (auto simp: table_ok_def list_all_length nth_list_update)

lemma write_cell_nat:
  assumes "r < length (table_rows (cells_table s))"
    and "c < length (table_rows (cells_table s) ! r)"
    and "own_rows (cells_table s)"
  shows "write_cell s (int r) (int c) v =
           Inr (s\<lparr>cells_table :=
                   fresh_rows ((table_rows (cells_table s))
                                 [r := (table_rows (cells_table s) ! r)[c := v]])\<rparr>)"
  using assms by (simp add: write_cell_def table_setitem_nat)

lemma apply_rules_cell_spec:
  assumes prev: "table_ok (width s) (height s) (table_rows (prev_cells_table s))"
    and r: "r < length (table_rows (cells_table s))"
    and c: "c < length (table_rows (cells_table s) ! r)"
    and own: "own_rows (cells_table s)"
  shows "apply_rules_cell s (int r) (int c) (table_rows (cells_table s) ! r ! c) =
           Inr (s\<lparr>cells_table :=
                   fresh_rows ((table_rows (cells_table s))
                                 [r := (table_rows (cells_table s) ! r)[c := next_of s r c]])\<rparr>)"
proof -
  have same: "s = s\<lparr>cells_table :=
                     fresh_rows ((table_rows (cells_table s))
                                   [r := (table_rows (cells_table s) ! r)
                                           [c := table_rows (cells_table s) ! r ! c]])\<rparr>"
    by (simp add: fresh_rows_of_own [OF own])
  show ?thesis
  proof (cases "next_of s r c = table_rows (cells_table s) ! r ! c")
    case True
    have "apply_rules_cell s (int r) (int c) (table_rows (cells_table s) ! r ! c) = Inr s"
      using True
      by (auto simp: apply_rules_cell_def get_alive_neighbours_spec [OF prev]
          write_cell_nat [OF r c own] next_of_def spec_next_alive_def)
    then show ?thesis
      using True same by simp
  next
    case False
    then show ?thesis
      by (auto simp: apply_rules_cell_def get_alive_neighbours_spec [OF prev]
          write_cell_nat [OF r c own] next_of_def spec_next_alive_def)
  qed
qed

lemma apply_rules_columns_spec:
  assumes "table_ok (width s) (height s) (table_rows (prev_cells_table s))"
    and "table_ok (width s) (height s) (table_rows (cells_table s))"
    and "r < length (table_rows (cells_table s))"
    and "\<forall>c\<in>set cs. c < nat (width s)" and "distinct cs"
    and "own_rows (cells_table s)"
  shows "\<exists>T. apply_rules_columns s r cs = Inr (s\<lparr>cells_table := fresh_rows T\<rparr>) \<and>
           table_ok (width s) (height s) T \<and>
           (\<forall>i j. i < length T \<longrightarrow> j < length (T ! i) \<longrightarrow>
              T ! i ! j = (if i = r \<and> j \<in> set cs then next_of s i j
                           else table_rows (cells_table s) ! i ! j))"
  using assms
proof (induction cs arbitrary: s)
  case Nil
  then show ?case
    by (intro exI [of _ "table_rows (cells_table s)"]) (simp add: fresh_rows_of_own)
next
  case (Cons c cs)
  let ?C = "table_rows (cells_table s)"
  let ?T1 = "?C[r := (?C ! r)[c := next_of s r c]]"
  let ?s1 = "s\<lparr>cells_table := fresh_rows ?T1\<rparr>"
  have wlen: "int (length (?C ! r)) = width s"
    using Cons.prems(2,3) by (rule table_ok_nth)
  have c: "c < length (?C ! r)"
    using Cons.prems(4) wlen by (simp, linarith)
  have read: "table_row (cells_table s) r = ?C ! r"
    using Cons.prems(3) by (simp add: length_table_rows table_rows_nth)
  have step: "apply_rules_cell s (int r) (int c) (?C ! r ! c) = Inr ?s1"
    using Cons.prems(1,3) c Cons.prems(6) by (rule apply_rules_cell_spec)
  have ok1: "table_ok (width ?s1) (height ?s1) (table_rows (cells_table ?s1))"
    using table_ok_update [OF Cons.prems(2,3)] by (simp add: table_rows_fresh)
  have "\<exists>T. apply_rules_columns ?s1 r cs = Inr (?s1\<lparr>cells_table := fresh_rows T\<rparr>) \<and>
           table_ok (width ?s1) (height ?s1) T \<and>
           (\<forall>i j. i < length T \<longrightarrow> j < length (T ! i) \<longrightarrow>
              T ! i ! j = (if i = r \<and> j \<in> set cs then next_of ?s1 i j
                           else table_rows (cells_table ?s1) ! i ! j))"
    using Cons.prems ok1 by (intro Cons.IH) (simp_all add: table_rows_fresh own_rows_fresh)
  then obtain T where T: "apply_rules_columns ?s1 r cs = Inr (?s1\<lparr>cells_table := fresh_rows T\<rparr>)"
    and okT: "table_ok (width s) (height s) T"
    and nthT: "\<And>i j. i < length T \<Longrightarrow> j < length (T ! i) \<Longrightarrow>
              T ! i ! j = (if i = r \<and> j \<in> set cs then next_of ?s1 i j else ?T1 ! i ! j)"
    by (auto simp: table_rows_fresh)
  have lenT: "length T = length ?C"
    using okT Cons.prems(2) by (simp add: table_ok_def)
  have run: "apply_rules_columns s r (c # cs) = Inr (s\<lparr>cells_table := fresh_rows T\<rparr>)"
    using step T by (simp add: read)
  have fresh: "c \<notin> set cs"
    using Cons.prems(5) by simp
  have "T ! i ! j = (if i = r \<and> j \<in> set (c # cs) then next_of s i j else ?C ! i ! j)"
    if i: "i < length T" and j: "j < length (T ! i)" for i j
  proof -
    have jlen: "j < length (?C ! i)"
      using i j lenT okT Cons.prems(2) table_ok_nth [of "width s" "height s" T i]
        table_ok_nth [of "width s" "height s" ?C i] by simp
    have T1: "?T1 ! i ! j = (if i = r \<and> j = c then next_of s r c else ?C ! i ! j)"
      using i lenT jlen by (cases "i = r") (simp_all add: nth_list_update)
    show ?thesis
    proof (cases "i = r \<and> j \<in> set cs")
      case True
      then have "j \<noteq> c" using fresh by auto
      then have "next_of ?s1 i j = next_of s i j"
        using True Cons.prems(3) by (simp add: next_of_def table_rows_fresh)
      then show ?thesis
        using nthT [OF i j] True by simp
    next
      case False
      then show ?thesis
        using nthT [OF i j] T1 by auto
    qed
  qed
  with run okT show ?case by blast
qed

lemma apply_rules_rows_spec:
  assumes "table_ok (width s) (height s) (table_rows (prev_cells_table s))"
    and "table_ok (width s) (height s) (table_rows (cells_table s))"
    and "\<forall>r\<in>set rs. r < length (table_rows (cells_table s))" and "distinct rs"
    and "own_rows (cells_table s)"
  shows "\<exists>T. apply_rules_rows s rs = Inr (s\<lparr>cells_table := fresh_rows T\<rparr>) \<and>
           table_ok (width s) (height s) T \<and>
           (\<forall>i j. i < length T \<longrightarrow> j < length (T ! i) \<longrightarrow>
              T ! i ! j = (if i \<in> set rs then next_of s i j
                           else table_rows (cells_table s) ! i ! j))"
  using assms
proof (induction rs arbitrary: s)
  case Nil
  then show ?case
    by (intro exI [of _ "table_rows (cells_table s)"]) (simp add: fresh_rows_of_own)
next
  case (Cons r rs)
  let ?C = "table_rows (cells_table s)"
  have r: "r < length ?C"
    using Cons.prems(3) by simp
  have wlen: "int (length (?C ! r)) = width s"
    using Cons.prems(2) r by (rule table_ok_nth)
  have read: "table_row (cells_table s) r = ?C ! r"
    using r by (simp add: length_table_rows table_rows_nth)
  have cols: "[0..<length (table_row (cells_table s) r)] = [0..<nat (width s)]"
    using wlen read by (metis nat_int)
  have "\<exists>T. apply_rules_columns s r [0..<nat (width s)] =
               Inr (s\<lparr>cells_table := fresh_rows T\<rparr>) \<and>
           table_ok (width s) (height s) T \<and>
           (\<forall>i j. i < length T \<longrightarrow> j < length (T ! i) \<longrightarrow>
              T ! i ! j = (if i = r \<and> j \<in> set [0..<nat (width s)] then next_of s i j
                           else ?C ! i ! j))"
    using Cons.prems(1,2) r Cons.prems(5) by (intro apply_rules_columns_spec) simp_all
  then obtain T1 where
    T1: "apply_rules_columns s r [0..<nat (width s)] = Inr (s\<lparr>cells_table := fresh_rows T1\<rparr>)"
    and ok1: "table_ok (width s) (height s) T1"
    and nth1: "\<And>i j. i < length T1 \<Longrightarrow> j < length (T1 ! i) \<Longrightarrow>
              T1 ! i ! j = (if i = r \<and> j < nat (width s) then next_of s i j else ?C ! i ! j)"
    by auto
  let ?s1 = "s\<lparr>cells_table := fresh_rows T1\<rparr>"
  have len1: "length T1 = length ?C"
    using ok1 Cons.prems(2) by (simp add: table_ok_def)
  have "\<exists>T. apply_rules_rows ?s1 rs = Inr (?s1\<lparr>cells_table := fresh_rows T\<rparr>) \<and>
           table_ok (width ?s1) (height ?s1) T \<and>
           (\<forall>i j. i < length T \<longrightarrow> j < length (T ! i) \<longrightarrow>
              T ! i ! j = (if i \<in> set rs then next_of ?s1 i j
                           else table_rows (cells_table ?s1) ! i ! j))"
    using Cons.prems ok1 len1 by (intro Cons.IH) (simp_all add: table_rows_fresh own_rows_fresh)
  then obtain T where T: "apply_rules_rows ?s1 rs = Inr (?s1\<lparr>cells_table := fresh_rows T\<rparr>)"
    and okT: "table_ok (width s) (height s) T"
    and nthT: "\<And>i j. i < length T \<Longrightarrow> j < length (T ! i) \<Longrightarrow>
              T ! i ! j = (if i \<in> set rs then next_of ?s1 i j else T1 ! i ! j)"
    by (auto simp: table_rows_fresh)
  have lenT: "length T = length ?C"
    using okT Cons.prems(2) by (simp add: table_ok_def)
  have run: "apply_rules_rows s (r # rs) = Inr (s\<lparr>cells_table := fresh_rows T\<rparr>)"
    using T1 T cols by simp
  have fresh: "r \<notin> set rs"
    using Cons.prems(4) by simp
  have "T ! i ! j = (if i \<in> set (r # rs) then next_of s i j else ?C ! i ! j)"
    if i: "i < length T" and j: "j < length (T ! i)" for i j
  proof -
    have j1: "j < length (T1 ! i)" and jw: "j < nat (width s)"
      using i j lenT len1 table_ok_nth [OF okT, of i] table_ok_nth [OF ok1, of i] by simp_all
    have one: "T1 ! i ! j = (if i = r then next_of s i j else ?C ! i ! j)"
      using nth1 [of i j] i lenT len1 j1 jw by simp
    show ?thesis
    proof (cases "i \<in> set rs")
      case True
      then have "i \<noteq> r" using fresh by auto
      then have "next_of ?s1 i j = next_of s i j"
        using one by (simp add: next_of_def table_rows_fresh)
      then show ?thesis
        using nthT [OF i j] True by simp
    next
      case False
      then show ?thesis
        using nthT [OF i j] one by auto
    qed
  qed
  with run okT show ?case by blast
qed

lemma apply_rules_next_table:
  assumes ok: "life_ok s"
  shows "apply_rules s = Inr (s\<lparr>cells_table := fresh_rows (next_table s)\<rparr>)"
proof -
  let ?C = "table_rows (cells_table s)"
  have prev: "table_ok (width s) (height s) (table_rows (prev_cells_table s))"
    and cur: "table_ok (width s) (height s) ?C"
    and own: "own_rows (cells_table s)"
    using ok by (simp_all add: life_ok_def)
  have "\<exists>T. apply_rules_rows s [0..<length ?C] = Inr (s\<lparr>cells_table := fresh_rows T\<rparr>) \<and>
           table_ok (width s) (height s) T \<and>
           (\<forall>i j. i < length T \<longrightarrow> j < length (T ! i) \<longrightarrow>
              T ! i ! j = (if i \<in> set [0..<length ?C] then next_of s i j else ?C ! i ! j))"
    using prev cur own by (intro apply_rules_rows_spec) simp_all
  then obtain T where T: "apply_rules s = Inr (s\<lparr>cells_table := fresh_rows T\<rparr>)"
    and okT: "table_ok (width s) (height s) T"
    and nthT: "\<And>i j. i < length T \<Longrightarrow> j < length (T ! i) \<Longrightarrow>
              T ! i ! j = (if i < length ?C then next_of s i j else ?C ! i ! j)"
    by (auto simp: apply_rules_def length_table_rows)
  have lenT: "length T = nat (height s)"
    using okT by (auto simp: table_ok_def)
  have lenC: "length ?C = nat (height s)"
    using cur by (auto simp: table_ok_def)
  have rows: "length (T ! i) = nat (width s)" if "i < length T" for i
    using table_ok_nth [OF okT that] by linarith
  have "T = next_table s"
  proof (rule nth_equalityI)
    show "length T = length (next_table s)"
      by (simp add: lenT next_table_def)
  next
    fix i assume i: "i < length T"
    show "T ! i = next_table s ! i"
    proof (rule nth_equalityI)
      show "length (T ! i) = length (next_table s ! i)"
        using i rows lenT by (simp add: next_table_def)
    next
      fix j assume j: "j < length (T ! i)"
      show "T ! i ! j = next_table s ! i ! j"
        using nthT [OF i j] i j rows [OF i] lenT lenC by (simp add: next_table_def)
    qed
  qed
  with T show ?thesis by simp
qed

lemma next_table_spec_step:
  "prev_cells_table s = cells_table s \<Longrightarrow>
     next_table s = spec_step (table_rows (cells_table s)) (width s) (height s)"
  by (simp add: next_table_def spec_step_def next_of_def)

section \<open>game.py: what update_grid_full builds\<close>

lemma set_alive_nat:
  assumes "y < length m" and "x < length (m ! y)"
  shows "set_alive m (int y) (int x) b = Inr (m[y := (m ! y)[x := Cell b]])"
  using assms by (simp add: set_alive_def getitem_nat list_pos_def)

lemma update_grid_x_Cons:
  assumes ok: "grid_ok g" and m: "table_ok (x_size g) (y_size g) m"
    and y: "0 \<le> y" "y < y_size g" and x: "0 \<le> x" "x < x_size g"
  shows "update_grid_x g m y (x # xs) =
           update_grid_x g
             (if grid_next g (nat y) (nat x)
              then m[nat y := (m ! nat y)[nat x := Cell True]] else m) y xs"
proof -
  obtain l where l: "get_neighbours g x y = Inr l"
    and sum: "sum_neighbours l =
      spec_count_live_neighbors (alive_table g) (x_size g) (y_size g) y x"
    using get_neighbours_spec [OF ok x y] by blast
  have ylen: "nat y < length m"
    using m y by (simp add: table_ok_def) linarith
  have xlen: "nat x < length (m ! nat y)"
    using table_ok_nth [OF m ylen] x by linarith
  have wr: "set_alive m y x True = Inr (m[nat y := (m ! nat y)[nat x := Cell True]])"
    using set_alive_nat [OF ylen xlen, of True] x y by simp
  show ?thesis
    using y x
    by (auto simp: l sum wr grid_cell_read(1,2) [OF ok y x] grid_next_def spec_next_alive_def)
qed

lemma update_grid_x_spec:
  assumes "grid_ok g" and "table_ok (x_size g) (y_size g) m"
    and "0 \<le> y" "y < y_size g" and "\<forall>x\<in>set xs. 0 \<le> x \<and> x < x_size g"
  shows "\<exists>m'. update_grid_x g m y xs = Inr m' \<and> table_ok (x_size g) (y_size g) m' \<and>
           (\<forall>i j. i < length m' \<longrightarrow> j < length (m' ! i) \<longrightarrow>
              m' ! i ! j = (if int i = y \<and> int j \<in> set xs \<and> grid_next g i j
                            then Cell True else m ! i ! j))"
  using assms
proof (induction xs arbitrary: m)
  case Nil
  then show ?case by simp
next
  case (Cons x xs)
  let ?m1 = "if grid_next g (nat y) (nat x)
             then m[nat y := (m ! nat y)[nat x := Cell True]] else m"
  have x: "0 \<le> x" "x < x_size g"
    using Cons.prems(5) by simp_all
  have ylen: "nat y < length m"
    using Cons.prems(2,3,4) by (simp add: table_ok_def) linarith
  have step: "update_grid_x g m y (x # xs) = update_grid_x g ?m1 y xs"
    using Cons.prems(1,2,3,4) x by (rule update_grid_x_Cons)
  have ok1: "table_ok (x_size g) (y_size g) ?m1"
    using table_ok_update [OF Cons.prems(2) ylen] Cons.prems(2) by simp
  have "\<exists>m'. update_grid_x g ?m1 y xs = Inr m' \<and> table_ok (x_size g) (y_size g) m' \<and>
           (\<forall>i j. i < length m' \<longrightarrow> j < length (m' ! i) \<longrightarrow>
              m' ! i ! j = (if int i = y \<and> int j \<in> set xs \<and> grid_next g i j
                            then Cell True else ?m1 ! i ! j))"
    using Cons.prems ok1 by (intro Cons.IH) simp_all
  then obtain m' where run: "update_grid_x g ?m1 y xs = Inr m'"
    and ok': "table_ok (x_size g) (y_size g) m'"
    and nth': "\<And>i j. i < length m' \<Longrightarrow> j < length (m' ! i) \<Longrightarrow>
              m' ! i ! j = (if int i = y \<and> int j \<in> set xs \<and> grid_next g i j
                            then Cell True else ?m1 ! i ! j)"
    by blast
  have len': "length m' = length m"
    using ok' Cons.prems(2) by (simp add: table_ok_def)
  have "m' ! i ! j = (if int i = y \<and> int j \<in> set (x # xs) \<and> grid_next g i j
                      then Cell True else m ! i ! j)"
    if i: "i < length m'" and j: "j < length (m' ! i)" for i j
  proof -
    have jlen: "j < length (m ! i)"
      using i j len' table_ok_nth [OF ok', of i] table_ok_nth [OF Cons.prems(2), of i] by simp
    have one: "?m1 ! i ! j = (if int i = y \<and> int j = x \<and> grid_next g i j
                              then Cell True else m ! i ! j)"
    proof (cases "i = nat y")
      case True
      then show ?thesis
        using i len' jlen Cons.prems(3) x
        by (cases "j = nat x") (auto simp: nth_list_update)
    next
      case False
      then show ?thesis
        using i len' Cons.prems(3) by (auto simp: nth_list_update)
    qed
    show ?thesis
      using nth' [OF i j] one by auto
  qed
  with step run ok' show ?case by auto
qed

lemma update_grid_y_spec:
  assumes "grid_ok g" and "table_ok (x_size g) (y_size g) m"
    and "\<forall>y\<in>set ys. 0 \<le> y \<and> y < y_size g"
  shows "\<exists>m'. update_grid_y g m ys = Inr m' \<and> table_ok (x_size g) (y_size g) m' \<and>
           (\<forall>i j. i < length m' \<longrightarrow> j < length (m' ! i) \<longrightarrow>
              m' ! i ! j = (if int i \<in> set ys \<and> grid_next g i j then Cell True else m ! i ! j))"
  using assms
proof (induction ys arbitrary: m)
  case Nil
  then show ?case by simp
next
  case (Cons y ys)
  have y: "0 \<le> y" "y < y_size g"
    using Cons.prems(3) by simp_all
  have "\<exists>m'. update_grid_x g m y (range1 (x_size g)) = Inr m' \<and>
           table_ok (x_size g) (y_size g) m' \<and>
           (\<forall>i j. i < length m' \<longrightarrow> j < length (m' ! i) \<longrightarrow>
              m' ! i ! j = (if int i = y \<and> int j \<in> set (range1 (x_size g)) \<and> grid_next g i j
                            then Cell True else m ! i ! j))"
    using Cons.prems(1,2) y by (intro update_grid_x_spec) (auto simp: range1_def)
  then obtain m1 where run1: "update_grid_x g m y (range1 (x_size g)) = Inr m1"
    and ok1: "table_ok (x_size g) (y_size g) m1"
    and nth1: "\<And>i j. i < length m1 \<Longrightarrow> j < length (m1 ! i) \<Longrightarrow>
              m1 ! i ! j = (if int i = y \<and> int j \<in> set (range1 (x_size g)) \<and> grid_next g i j
                            then Cell True else m ! i ! j)"
    by blast
  have "\<exists>m'. update_grid_y g m1 ys = Inr m' \<and> table_ok (x_size g) (y_size g) m' \<and>
           (\<forall>i j. i < length m' \<longrightarrow> j < length (m' ! i) \<longrightarrow>
              m' ! i ! j = (if int i \<in> set ys \<and> grid_next g i j then Cell True else m1 ! i ! j))"
    using Cons.prems ok1 by (intro Cons.IH) simp_all
  then obtain m' where run: "update_grid_y g m1 ys = Inr m'"
    and ok': "table_ok (x_size g) (y_size g) m'"
    and nth': "\<And>i j. i < length m' \<Longrightarrow> j < length (m' ! i) \<Longrightarrow>
              m' ! i ! j = (if int i \<in> set ys \<and> grid_next g i j then Cell True else m1 ! i ! j)"
    by blast
  have len': "length m' = length m1"
    using ok' ok1 by (simp add: table_ok_def)
  have "m' ! i ! j = (if int i \<in> set (y # ys) \<and> grid_next g i j then Cell True else m ! i ! j)"
    if i: "i < length m'" and j: "j < length (m' ! i)" for i j
  proof -
    have j1: "j < length (m1 ! i)" and jw: "int j < x_size g"
      using i j len' table_ok_nth [OF ok', of i] table_ok_nth [OF ok1, of i] by simp_all
    then have "int j \<in> set (range1 (x_size g))"
      by (auto simp: range1_def)
    then have "m1 ! i ! j = (if int i = y \<and> grid_next g i j then Cell True else m ! i ! j)"
      using nth1 [of i j] i len' j1 by simp
    then show ?thesis
      using nth' [OF i j] by auto
  qed
  with run1 run ok' show ?case by auto
qed

lemma update_grid_full_next:
  assumes ok: "grid_ok g"
  shows "update_grid_full g = Inr (g\<lparr>cells := grid_next_cells g\<rparr>)"
proof -
  let ?m0 = "replicate (nat (y_size g)) (replicate (nat (x_size g)) (Cell False))"
  have len: "int (length (cells g)) = y_size g"
    using ok by (simp add: grid_ok_def table_ok_length)
  have ok0: "table_ok (x_size g) (y_size g) ?m0"
  proof (cases "cells g")
    case Nil
    then show ?thesis
      using len by (simp add: table_ok_def)
  next
    case (Cons row rows)
    then have "int (length row) = x_size g"
      using ok by (simp add: grid_ok_def table_ok_def)
    then have "0 \<le> x_size g" by linarith
    then show ?thesis
      using len by (simp add: table_ok_def list_all_length)
  qed
  have "\<exists>m'. update_grid_y g ?m0 (range1 (y_size g)) = Inr m' \<and>
           table_ok (x_size g) (y_size g) m' \<and>
           (\<forall>i j. i < length m' \<longrightarrow> j < length (m' ! i) \<longrightarrow>
              m' ! i ! j = (if int i \<in> set (range1 (y_size g)) \<and> grid_next g i j
                            then Cell True else ?m0 ! i ! j))"
    using ok ok0 by (intro update_grid_y_spec) (auto simp: range1_def)
  then obtain m' where run: "update_grid_y g ?m0 (range1 (y_size g)) = Inr m'"
    and ok': "table_ok (x_size g) (y_size g) m'"
    and nth': "\<And>i j. i < length m' \<Longrightarrow> j < length (m' ! i) \<Longrightarrow>
              m' ! i ! j = (if int i \<in> set (range1 (y_size g)) \<and> grid_next g i j
                            then Cell True else ?m0 ! i ! j)"
    by blast
  have len': "length m' = nat (y_size g)"
    using ok' by (auto simp: table_ok_def)
  have rows: "length (m' ! i) = nat (x_size g)" if "i < length m'" for i
    using table_ok_nth [OF ok' that] by linarith
  have "m' = grid_next_cells g"
  proof (rule nth_equalityI)
    show "length m' = length (grid_next_cells g)"
      by (simp add: len' grid_next_cells_def)
  next
    fix i assume i: "i < length m'"
    show "m' ! i = grid_next_cells g ! i"
    proof (rule nth_equalityI)
      show "length (m' ! i) = length (grid_next_cells g ! i)"
        using i rows len' by (simp add: grid_next_cells_def)
    next
      fix j assume j: "j < length (m' ! i)"
      have "int i \<in> set (range1 (y_size g))"
        using i len' by (auto simp: range1_def)
      then show "m' ! i ! j = grid_next_cells g ! i ! j"
        using nth' [OF i j] i j rows [OF i] len' by (simp add: grid_next_cells_def)
    qed
  qed
  with run show ?thesis
    by (simp add: update_grid_full_def)
qed

section \<open>The neighbour count is bounded and never wraps\<close>

lemma corner_life_ok: "life_ok corner_life"
  by (simp add: life_ok_def table_ok_def corner_life_def corner_table_def table_rows_fresh
      own_rows_fresh)

lemma corner_grid_ok: "grid_ok corner_grid"
  by (simp add: grid_ok_def table_ok_def corner_grid_def corner_table_def)

text \<open>
  Claim C2. On a \<^verbatim>\<open>Life\<close> whose previous table reads as \<^verbatim>\<open>height\<close> rows of \<^verbatim>\<open>width\<close>
  cells, whether its positions hold rows of their own or one row many times, and a cell
  \<open>(row, col)\<close> inside the grid, \<^verbatim>\<open>get_alive_neighbours\<close> looks at eight index
  pairs, which are exactly the cell's coordinates moved by the eight offsets other than
  \<open>(0,0)\<close>, raises nothing and returns the specification's count: every place outside
  the bounds contributes 0 and every place inside contributes the cell stored there, so
  no cell of the opposite edge is ever read. On a \<^verbatim>\<open>Grid\<close> whose matrix has \<^verbatim>\<open>y_size\<close>
  rows of \<^verbatim>\<open>x_size\<close> cells, \<^verbatim>\<open>get_neighbours\<close> returns a tuple of eight entries whose
  sum is that same count. The count lies between 0 and 8.
\<close>

theorem neighbour_count_bounded_no_wrap:
  "(table_ok (width s) (height s) (table_rows (prev_cells_table s)) \<and>
    0 \<le> row \<and> row < height s \<and> 0 \<le> col \<and> col < width s \<longrightarrow>
      length (neighbour_indices row col) = 8 \<and>
      set (neighbour_indices row col) = (\<lambda>(dr, dc). (row + dr, col + dc)) ` set spec_offsets \<and>
      get_alive_neighbours s row col =
        Inr (spec_count_live_neighbors (table_rows (prev_cells_table s)) (width s) (height s)
               row col)) \<and>
   (grid_ok g \<and> 0 \<le> row \<and> row < y_size g \<and> 0 \<le> col \<and> col < x_size g \<longrightarrow>
      (\<exists>l. get_neighbours g col row = Inr l \<and> length l = 8 \<and>
           sum_neighbours l =
             spec_count_live_neighbors (alive_table g) (x_size g) (y_size g) row col)) \<and>
   0 \<le> spec_count_live_neighbors t w h row col \<and>
   spec_count_live_neighbors t w h row col \<le> 8"
proof (intro conjI impI)
  assume a: "table_ok (width s) (height s) (table_rows (prev_cells_table s)) \<and>
    0 \<le> row \<and> row < height s \<and> 0 \<le> col \<and> col < width s"
  show "length (neighbour_indices row col) = 8"
    by (simp add: neighbour_indices_def)
  show "set (neighbour_indices row col) = (\<lambda>(dr, dc). (row + dr, col + dc)) ` set spec_offsets"
    by (auto simp: neighbour_indices_def spec_offsets_def)
  from a have "table_ok (width s) (height s) (table_rows (prev_cells_table s))"
    by simp
  then show "get_alive_neighbours s row col =
        Inr (spec_count_live_neighbors (table_rows (prev_cells_table s)) (width s) (height s)
               row col)"
    by (rule get_alive_neighbours_spec)
next
  assume "grid_ok g \<and> 0 \<le> row \<and> row < y_size g \<and> 0 \<le> col \<and> col < x_size g"
  then show "\<exists>l. get_neighbours g col row = Inr l \<and> length l = 8 \<and>
           sum_neighbours l =
             spec_count_live_neighbors (alive_table g) (x_size g) (y_size g) row col"
    using get_neighbours_spec [of g col row] by simp
next
  show "0 \<le> spec_count_live_neighbors t w h row col"
    and "spec_count_live_neighbors t w h row col \<le> 8"
    using spec_count_range [of t w h row col] by simp_all
qed

text \<open>
  All six cells of the 3 by 2 table are alive. The corner \<open>(0, 0)\<close> has three neighbours
  inside the grid, and three is what both programs count: a count that wrapped around
  the edges would be larger.
\<close>

theorem neighbour_count_bounded_no_wrap_witness:
  "table_ok 3 2 (table_rows (prev_cells_table corner_life)) \<and> grid_ok corner_grid \<and>
   get_alive_neighbours corner_life 0 0 = Inr 3 \<and>
   (\<exists>l. get_neighbours corner_grid 0 0 = Inr l \<and> length l = 8 \<and> sum_neighbours l = 3)"
proof -
  have count: "spec_count_live_neighbors corner_table 3 2 0 0 = 3"
    by (simp add: spec_count_live_neighbors_def spec_offsets_def spec_contribution_def
        corner_table_def)
  have tab: "alive_table corner_grid = corner_table"
    by (simp add: alive_table_def corner_grid_def corner_table_def)
  have prev: "table_rows (prev_cells_table corner_life) = corner_table"
    by (simp add: corner_life_def table_rows_fresh)
  have ok: "table_ok 3 2 corner_table"
    by (simp add: table_ok_def corner_table_def)
  show ?thesis
    using neighbour_count_bounded_no_wrap [of corner_life 0 0 corner_grid corner_table 3 2]
      ok corner_grid_ok count tab prev
    by (simp add: corner_life_def corner_grid_def)
qed

section \<open>One step follows the rule of the game\<close>

lemma grid_next_cells_spec:
  assumes ok: "grid_ok g"
  shows "grid_next_cells g = map (map Cell) (spec_step (alive_table g) (x_size g) (y_size g))"
proof -
  have len: "length (cells g) = nat (y_size g)"
    using ok by (auto simp: grid_ok_def table_ok_def)
  have "grid_next g i j =
      spec_next_alive (alive_table g ! i ! j)
        (spec_count_live_neighbors (alive_table g) (x_size g) (y_size g) (int i) (int j))"
    if "i < nat (y_size g)" and "j < nat (x_size g)" for i j
  proof -
    have i: "i < length (cells g)" using that len by simp
    have "int (length (cells g ! i)) = x_size g"
      using ok i by (simp add: grid_ok_def table_ok_nth)
    then have "j < length (cells g ! i)" using that by linarith
    then show ?thesis
      using i by (simp add: grid_next_def alive_table_def)
  qed
  then show ?thesis
    by (simp add: grid_next_cells_def spec_step_def)
qed

lemma grid_of_life_ok:
  "table_ok w h t \<Longrightarrow> grid_ok \<lparr>x_size = w, y_size = h, cells = map (map Cell) t\<rparr>"
  by (simp add: grid_ok_def table_ok_def list_all_length)

lemma alive_table_of_life:
  "alive_table \<lparr>x_size = w, y_size = h, cells = map (map Cell) t\<rparr> = t"
  by (simp add: alive_table_def comp_def)

lemma next_table_ok:
  assumes ok: "life_ok s"
  shows "table_ok (width s) (height s) (next_table s)"
proof -
  let ?C = "table_rows (cells_table s)"
  have cur: "table_ok (width s) (height s) ?C"
    using ok by (simp add: life_ok_def)
  then have h: "0 \<le> height s"
    by (auto simp: table_ok_def)
  have w: "0 \<le> width s" if "0 < height s"
  proof -
    have "0 < length ?C"
      using cur that by (auto simp: table_ok_def)
    then have "int (length (?C ! 0)) = width s"
      using cur by (intro table_ok_nth)
    then show ?thesis by linarith
  qed
  show ?thesis
    using h w by (auto simp: table_ok_def next_table_def list_all_length)
qed

lemma grid_next_cells_ok:
  assumes ok: "grid_ok g"
  shows "table_ok (x_size g) (y_size g) (grid_next_cells g)"
proof -
  have cur: "table_ok (x_size g) (y_size g) (cells g)"
    using ok by (simp add: grid_ok_def)
  then have h: "0 \<le> y_size g"
    by (auto simp: table_ok_def)
  have w: "0 \<le> x_size g" if "0 < y_size g"
  proof -
    have "0 < length (cells g)"
      using cur that by (auto simp: table_ok_def)
    then have "int (length (cells g ! 0)) = x_size g"
      using cur by (intro table_ok_nth)
    then show ?thesis by linarith
  qed
  show ?thesis
    using h w by (auto simp: table_ok_def grid_next_cells_def list_all_length)
qed

text \<open>
  Claim C1. A pass of \<^verbatim>\<open>apply_rules\<close> over a well-formed \<^verbatim>\<open>Life\<close> whose previous table
  equals its current one (as it does at every pass of \<^verbatim>\<open>run\<close>) returns normally, keeps
  the dimensions, and leaves in every cell \<open>(r, c)\<close> of the grid the value the rule
  gives. Here \<open>n\<close> is the number of live cells among the eight neighbours of the cell in
  the table before the pass, counted as the specification counts them, and it is the
  number \<^verbatim>\<open>get_alive_neighbours\<close> returns for the cell: a cell that was alive is alive
  afterwards iff \<open>n = 2\<close> or \<open>n = 3\<close>, and a cell that was dead is alive afterwards iff
  \<open>n = 3\<close>. The same holds for \<^verbatim>\<open>update_grid_full\<close> on a well-formed \<^verbatim>\<open>Grid\<close>, where
  \<open>n\<close> is that count in the matrix of the grid and is the sum of the tuple
  \<^verbatim>\<open>get_neighbours\<close> returns.
\<close>

theorem step_obeys_life_rule:
  "(life_ok s \<and> prev_cells_table s = cells_table s \<longrightarrow>
      (\<exists>s'. apply_rules s = Inr s' \<and> life_ok s' \<and>
         width s' = width s \<and> height s' = height s \<and>
         (\<forall>r c. r < nat (height s) \<and> c < nat (width s) \<longrightarrow>
            (\<exists>n. n = spec_count_live_neighbors (table_rows (cells_table s)) (width s) (height s)
                        (int r) (int c) \<and>
                 get_alive_neighbours s (int r) (int c) = Inr n \<and>
                 table_rows (cells_table s') ! r ! c =
                   (if table_rows (cells_table s) ! r ! c then n = 2 \<or> n = 3 else n = 3))))) \<and>
   (grid_ok g \<longrightarrow>
      (\<exists>g'. update_grid_full g = Inr g' \<and> grid_ok g' \<and>
         x_size g' = x_size g \<and> y_size g' = y_size g \<and>
         (\<forall>y x. y < nat (y_size g) \<and> x < nat (x_size g) \<longrightarrow>
            (\<exists>n l. n = spec_count_live_neighbors (alive_table g) (x_size g) (y_size g)
                          (int y) (int x) \<and>
                 get_neighbours g (int x) (int y) = Inr l \<and> sum_neighbours l = n \<and>
                 alive (cells g' ! y ! x) =
                   (if alive (cells g ! y ! x) then n = 2 \<or> n = 3 else n = 3)))))"
proof (intro conjI impI)
  assume a: "life_ok s \<and> prev_cells_table s = cells_table s"
  then have ok: "life_ok s" and snap: "prev_cells_table s = cells_table s" by simp_all
  have prev: "table_ok (width s) (height s) (table_rows (prev_cells_table s))"
    and own: "own_rows (prev_cells_table s)"
    using ok by (simp_all add: life_ok_def)
  let ?s' = "s\<lparr>cells_table := fresh_rows (next_table s)\<rparr>"
  have run: "apply_rules s = Inr ?s'"
    using ok by (rule apply_rules_next_table)
  have ok': "life_ok ?s'"
    using next_table_ok [OF ok] prev own
    by (simp add: life_ok_def table_rows_fresh own_rows_fresh)
  have cell: "\<exists>n. n = spec_count_live_neighbors (table_rows (cells_table s)) (width s) (height s)
                        (int r) (int c) \<and>
                 get_alive_neighbours s (int r) (int c) = Inr n \<and>
                 table_rows (cells_table ?s') ! r ! c =
                   (if table_rows (cells_table s) ! r ! c then n = 2 \<or> n = 3 else n = 3)"
    if "r < nat (height s) \<and> c < nat (width s)" for r c
    using that get_alive_neighbours_spec [OF prev, of "int r" "int c"] snap
    by (simp add: next_table_def next_of_def spec_next_alive_def table_rows_fresh)
  show "\<exists>s'. apply_rules s = Inr s' \<and> life_ok s' \<and>
         width s' = width s \<and> height s' = height s \<and>
         (\<forall>r c. r < nat (height s) \<and> c < nat (width s) \<longrightarrow>
            (\<exists>n. n = spec_count_live_neighbors (table_rows (cells_table s)) (width s) (height s)
                        (int r) (int c) \<and>
                 get_alive_neighbours s (int r) (int c) = Inr n \<and>
                 table_rows (cells_table s') ! r ! c =
                   (if table_rows (cells_table s) ! r ! c then n = 2 \<or> n = 3 else n = 3)))"
    using run ok' cell by (intro exI [of _ ?s']) simp
next
  assume ok: "grid_ok g"
  let ?g' = "g\<lparr>cells := grid_next_cells g\<rparr>"
  have run: "update_grid_full g = Inr ?g'"
    using ok by (rule update_grid_full_next)
  have ok': "grid_ok ?g'"
    using grid_next_cells_ok [OF ok] by (simp add: grid_ok_def)
  have cell: "\<exists>n l. n = spec_count_live_neighbors (alive_table g) (x_size g) (y_size g)
                          (int y) (int x) \<and>
                 get_neighbours g (int x) (int y) = Inr l \<and> sum_neighbours l = n \<and>
                 alive (cells ?g' ! y ! x) =
                   (if alive (cells g ! y ! x) then n = 2 \<or> n = 3 else n = 3)"
    if "y < nat (y_size g) \<and> x < nat (x_size g)" for y x
  proof -
    have "int x < x_size g" and "int y < y_size g"
      using that by linarith+
    then obtain l where "get_neighbours g (int x) (int y) = Inr l"
      and "sum_neighbours l =
        spec_count_live_neighbors (alive_table g) (x_size g) (y_size g) (int y) (int x)"
      using get_neighbours_spec [OF ok, of "int x" "int y"] by auto
    then show ?thesis
      using that by (simp add: grid_next_cells_def grid_next_def spec_next_alive_def)
  qed
  show "\<exists>g'. update_grid_full g = Inr g' \<and> grid_ok g' \<and>
         x_size g' = x_size g \<and> y_size g' = y_size g \<and>
         (\<forall>y x. y < nat (y_size g) \<and> x < nat (x_size g) \<longrightarrow>
            (\<exists>n l. n = spec_count_live_neighbors (alive_table g) (x_size g) (y_size g)
                          (int y) (int x) \<and>
                 get_neighbours g (int x) (int y) = Inr l \<and> sum_neighbours l = n \<and>
                 alive (cells g' ! y ! x) =
                   (if alive (cells g ! y ! x) then n = 2 \<or> n = 3 else n = 3)))"
    using run ok' cell by (intro exI [of _ ?g']) simp
qed

text \<open>
  On the 3 by 3 table with the middle row alive, the cell above the middle one is dead,
  has three live neighbours by the specification's count, and is alive after one step
  of either program.
\<close>

theorem step_obeys_life_rule_witness:
  "life_ok (life_of 3 3 row_of_three) \<and>
   grid_ok \<lparr>x_size = 3, y_size = 3, cells = map (map Cell) row_of_three\<rparr> \<and>
   spec_count_live_neighbors row_of_three 3 3 0 1 = 3 \<and>
   (\<exists>s'. apply_rules (life_of 3 3 row_of_three) = Inr s' \<and>
      get_alive_neighbours (life_of 3 3 row_of_three) 0 1 = Inr 3 \<and>
      \<not> table_rows (cells_table (life_of 3 3 row_of_three)) ! 0 ! 1 \<and>
      table_rows (cells_table s') ! 0 ! 1) \<and>
   (\<exists>g'. update_grid_full \<lparr>x_size = 3, y_size = 3, cells = map (map Cell) row_of_three\<rparr> = Inr g' \<and>
      alive (cells g' ! 0 ! 1))"
proof -
  let ?s = "life_of 3 3 row_of_three"
  let ?g = "\<lparr>x_size = 3, y_size = 3, cells = map (map Cell) row_of_three\<rparr>"
  have rows: "table_rows (cells_table ?s) = row_of_three"
    by (simp add: life_of_def table_rows_fresh)
  have ok: "life_ok ?s"
    by (simp add: life_ok_def table_ok_def life_of_def row_of_three_def table_rows_fresh
        own_rows_fresh)
  have snap: "prev_cells_table ?s = cells_table ?s"
    by (simp add: life_of_def)
  have gok: "grid_ok ?g"
    by (simp add: grid_ok_def table_ok_def row_of_three_def)
  have tab: "alive_table ?g = row_of_three"
    by (rule alive_table_of_life)
  have n: "spec_count_live_neighbors row_of_three 3 3 0 1 = 3"
    by (simp add: spec_count_live_neighbors_def spec_offsets_def spec_contribution_def
        row_of_three_def)
  have dead: "\<not> table_rows (cells_table ?s) ! 0 ! 1" "\<not> alive (cells ?g ! 0 ! 1)"
    by (simp_all add: rows) (simp_all add: row_of_three_def)
  from step_obeys_life_rule [of ?s ?g] ok snap gok
  obtain s' g' where run: "apply_rules ?s = Inr s'"
    and cells: "\<forall>r c. r < nat (height ?s) \<and> c < nat (width ?s) \<longrightarrow>
            (\<exists>n. n = spec_count_live_neighbors (table_rows (cells_table ?s)) (width ?s)
                        (height ?s) (int r) (int c) \<and>
                 get_alive_neighbours ?s (int r) (int c) = Inr n \<and>
                 table_rows (cells_table s') ! r ! c =
                   (if table_rows (cells_table ?s) ! r ! c then n = 2 \<or> n = 3 else n = 3))"
    and grun: "update_grid_full ?g = Inr g'"
    and gcells: "\<forall>y x. y < nat (y_size ?g) \<and> x < nat (x_size ?g) \<longrightarrow>
            (\<exists>n l. n = spec_count_live_neighbors (alive_table ?g) (x_size ?g) (y_size ?g)
                          (int y) (int x) \<and>
                 get_neighbours ?g (int x) (int y) = Inr l \<and> sum_neighbours l = n \<and>
                 alive (cells g' ! y ! x) =
                   (if alive (cells ?g ! y ! x) then n = 2 \<or> n = 3 else n = 3))"
    by blast
  have dims: "width ?s = 3" "height ?s = 3"
    by (simp_all add: life_of_def)
  have "0 < nat (height ?s) \<and> 1 < nat (width ?s)"
    by (simp add: dims)
  with cells [rule_format, of 0 1] n dead
  have count: "get_alive_neighbours ?s 0 1 = Inr 3" and born: "table_rows (cells_table s') ! 0 ! 1"
    by (auto simp: rows dims)
  have "0 < nat (y_size ?g) \<and> 1 < nat (x_size ?g)"
    by simp
  with gcells [rule_format, of 0 1] n dead have gborn: "alive (cells g' ! 0 ! 1)"
    by (auto simp: tab)
  show ?thesis
    using ok gok n run count dead born grun gborn by auto
qed

section \<open>The in-place pass computes the double-buffered step\<close>

lemma spec_pass_in_order_cells:
  assumes "table_ok (width s) (height s) (table_rows (prev_cells_table s))"
    and "table_ok (width s) (height s) (table_rows (cells_table s))"
    and "\<forall>(r, c)\<in>set order. r < nat (height s) \<and> c < nat (width s)" and "distinct order"
    and "own_rows (cells_table s)"
  shows "\<exists>T. spec_pass_in_order s order = Inr (s\<lparr>cells_table := fresh_rows T\<rparr>) \<and>
           table_ok (width s) (height s) T \<and>
           (\<forall>i j. i < length T \<longrightarrow> j < length (T ! i) \<longrightarrow>
              T ! i ! j = (if (i, j) \<in> set order then next_of s i j else table_rows (cells_table s) ! i ! j))"
  using assms
proof (induction order arbitrary: s)
  case Nil
  then show ?case
    by (intro exI [of _ "table_rows (cells_table s)"]) (simp add: fresh_rows_of_own)
next
  case (Cons p order)
  obtain r c where p: "p = (r, c)" by (cases p)
  let ?T1 = "(table_rows (cells_table s))[r := (table_rows (cells_table s) ! r)[c := next_of s r c]]"
  let ?s1 = "s\<lparr>cells_table := fresh_rows ?T1\<rparr>"
  have rc: "r < nat (height s)" "c < nat (width s)"
    using Cons.prems(3) p by simp_all
  have r: "r < length (table_rows (cells_table s))"
    using rc(1) table_ok_length [OF Cons.prems(2)] by linarith
  have wlen: "int (length (table_rows (cells_table s) ! r)) = width s"
    using Cons.prems(2) r by (rule table_ok_nth)
  have c: "c < length (table_rows (cells_table s) ! r)"
    using rc(2) wlen by linarith
  have step: "apply_rules_cell s (int r) (int c) (table_rows (cells_table s) ! r ! c) = Inr ?s1"
    using Cons.prems(1) r c Cons.prems(5) by (rule apply_rules_cell_spec)
  have read: "table_row (cells_table s) r = table_rows (cells_table s) ! r"
    using r by (simp add: length_table_rows table_rows_nth)
  have ok1: "table_ok (width ?s1) (height ?s1) (table_rows (cells_table ?s1))"
    using table_ok_update [OF Cons.prems(2) r] by (simp add: table_rows_fresh)
  have "\<exists>T. spec_pass_in_order ?s1 order = Inr (?s1\<lparr>cells_table := fresh_rows T\<rparr>) \<and>
           table_ok (width ?s1) (height ?s1) T \<and>
           (\<forall>i j. i < length T \<longrightarrow> j < length (T ! i) \<longrightarrow>
              T ! i ! j = (if (i, j) \<in> set order then next_of ?s1 i j else table_rows (cells_table ?s1) ! i ! j))"
    using Cons.prems ok1 by (intro Cons.IH) (simp_all add: table_rows_fresh own_rows_fresh)
  then obtain T where T: "spec_pass_in_order ?s1 order = Inr (?s1\<lparr>cells_table := fresh_rows T\<rparr>)"
    and okT: "table_ok (width s) (height s) T"
    and nthT: "\<And>i j. i < length T \<Longrightarrow> j < length (T ! i) \<Longrightarrow>
              T ! i ! j = (if (i, j) \<in> set order then next_of ?s1 i j else ?T1 ! i ! j)"
    by (auto simp: table_rows_fresh)
  have lenT: "length T = length (table_rows (cells_table s))"
    using okT Cons.prems(2) by (simp add: table_ok_def)
  have run: "spec_pass_in_order s (p # order) = Inr (s\<lparr>cells_table := fresh_rows T\<rparr>)"
    using step T by (simp add: p read)
  have fresh: "(r, c) \<notin> set order"
    using Cons.prems(4) p by simp
  have "T ! i ! j = (if (i, j) \<in> set (p # order) then next_of s i j else table_rows (cells_table s) ! i ! j)"
    if i: "i < length T" and j: "j < length (T ! i)" for i j
  proof -
    have jlen: "j < length (table_rows (cells_table s) ! i)"
      using i j lenT okT Cons.prems(2) table_ok_nth [of "width s" "height s" T i]
        table_ok_nth [of "width s" "height s" "table_rows (cells_table s)" i] by simp
    have T1: "?T1 ! i ! j = (if i = r \<and> j = c then next_of s r c else table_rows (cells_table s) ! i ! j)"
      using i lenT jlen by (cases "i = r") (simp_all add: nth_list_update)
    show ?thesis
    proof (cases "(i, j) \<in> set order")
      case True
      then have "\<not> (i = r \<and> j = c)" using fresh by auto
      then have "(if i = r \<and> j = c then next_of s r c else table_rows (cells_table s) ! i ! j) =
          table_rows (cells_table s) ! i ! j"
        by (rule if_not_P)
      with T1 have "?T1 ! i ! j = table_rows (cells_table s) ! i ! j"
        by (rule trans)
      then have "next_of ?s1 i j = next_of s i j"
        unfolding next_of_def by (simp add: table_rows_fresh)
      then show ?thesis
        using nthT [OF i j] True by simp
    next
      case False
      then show ?thesis
        using nthT [OF i j] T1 p by auto
    qed
  qed
  with run okT show ?case by blast
qed

lemma spec_pass_in_order_next_table:
  assumes ok: "life_ok s"
    and cover: "set order = {..<nat (height s)} \<times> {..<nat (width s)}" and "distinct order"
  shows "spec_pass_in_order s order = Inr (s\<lparr>cells_table := fresh_rows (next_table s)\<rparr>)"
proof -
  have prev: "table_ok (width s) (height s) (table_rows (prev_cells_table s))"
    and cur: "table_ok (width s) (height s) (table_rows (cells_table s))"
    and own: "own_rows (cells_table s)"
    using ok by (simp_all add: life_ok_def)
  have "\<exists>T. spec_pass_in_order s order = Inr (s\<lparr>cells_table := fresh_rows T\<rparr>) \<and>
           table_ok (width s) (height s) T \<and>
           (\<forall>i j. i < length T \<longrightarrow> j < length (T ! i) \<longrightarrow>
              T ! i ! j = (if (i, j) \<in> set order then next_of s i j else table_rows (cells_table s) ! i ! j))"
    using prev cur assms(3) cover own by (intro spec_pass_in_order_cells) auto
  then obtain T where T: "spec_pass_in_order s order = Inr (s\<lparr>cells_table := fresh_rows T\<rparr>)"
    and okT: "table_ok (width s) (height s) T"
    and nthT: "\<And>i j. i < length T \<Longrightarrow> j < length (T ! i) \<Longrightarrow>
              T ! i ! j = (if (i, j) \<in> set order then next_of s i j else table_rows (cells_table s) ! i ! j)"
    by auto
  have lenT: "length T = nat (height s)"
    using okT by (auto simp: table_ok_def)
  have rows: "length (T ! i) = nat (width s)" if "i < length T" for i
    using table_ok_nth [OF okT that] by linarith
  have "T = next_table s"
  proof (rule nth_equalityI)
    show "length T = length (next_table s)"
      by (simp add: lenT next_table_def)
  next
    fix i assume i: "i < length T"
    show "T ! i = next_table s ! i"
    proof (rule nth_equalityI)
      show "length (T ! i) = length (next_table s ! i)"
        using i rows lenT by (simp add: next_table_def)
    next
      fix j assume j: "j < length (T ! i)"
      have "(i, j) \<in> set order"
        using i j rows [OF i] lenT cover by simp
      then show "T ! i ! j = next_table s ! i ! j"
        using nthT [OF i j] i j rows [OF i] lenT by (simp add: next_table_def)
    qed
  qed
  with T show ?thesis by simp
qed

text \<open>
  Claim C3. For a well-formed \<^verbatim>\<open>Life\<close> whose previous table equals its current one,
  the in-place pass \<^verbatim>\<open>apply_rules\<close> of \<^verbatim>\<open>main.py\<close> and \<^verbatim>\<open>update_grid_full\<close> of
  \<^verbatim>\<open>game.py\<close>, run on the grid with the same cells, both return normally and produce
  the same next generation, which is the specification's \<open>spec_step\<close> of the current
  table: a function of that table and its dimensions alone, held in rows of its own. The
  pass changes no other field of the \<^verbatim>\<open>Life\<close>. And the order of the visits does not
  matter: the loop body of \<^verbatim>\<open>apply_rules\<close>, run over the cells of the grid in any order
  that visits each cell once, gives the result of \<^verbatim>\<open>apply_rules\<close>. After the deep copy
  that follows the pass in \<^verbatim>\<open>run\<close>, the previous table equals the current one again and
  the \<^verbatim>\<open>Life\<close> is well-formed, so the same holds of the next pass.
\<close>

theorem apply_rules_refines_update_grid_full:
  assumes ok: "life_ok s" and snapshot: "prev_cells_table s = cells_table s"
  shows "\<exists>s' g'. apply_rules s = Inr s' \<and>
           update_grid_full \<lparr>x_size = width s, y_size = height s,
                             cells = map (map Cell) (table_rows (cells_table s))\<rparr> = Inr g' \<and>
           table_rows (cells_table s') = map (map alive) (cells g') \<and>
           cells_table s' =
             fresh_rows (spec_step (table_rows (cells_table s)) (width s) (height s)) \<and>
           table_rows (cells_table s') =
             spec_step (table_rows (cells_table s)) (width s) (height s) \<and>
           s' = s\<lparr>cells_table := cells_table s'\<rparr> \<and>
           x_size g' = width s \<and> y_size g' = height s \<and>
           (\<forall>order. distinct order \<and>
                    set order = {..<nat (height s)} \<times> {..<nat (width s)} \<longrightarrow>
                    spec_pass_in_order s order = Inr s') \<and>
           (\<exists>s''. run_generation s = Inr s'' \<and> cells_table s'' = cells_table s' \<and>
                  prev_cells_table s'' = cells_table s'' \<and> life_ok s'')"
proof -
  let ?C = "table_rows (cells_table s)"
  let ?g = "\<lparr>x_size = width s, y_size = height s, cells = map (map Cell) ?C\<rparr>"
  let ?T = "spec_step ?C (width s) (height s)"
  have gok: "grid_ok ?g"
    using ok by (intro grid_of_life_ok) (simp add: life_ok_def)
  have tab: "next_table s = ?T"
    using snapshot by (rule next_table_spec_step)
  have main: "apply_rules s = Inr (s\<lparr>cells_table := fresh_rows ?T\<rparr>)"
    using apply_rules_next_table [OF ok] tab by simp
  have game: "update_grid_full ?g = Inr (?g\<lparr>cells := map (map Cell) ?T\<rparr>)"
    using update_grid_full_next [OF gok] grid_next_cells_spec [OF gok]
    by (simp add: alive_table_of_life)
  have any_order: "spec_pass_in_order s order = Inr (s\<lparr>cells_table := fresh_rows ?T\<rparr>)"
    if "distinct order \<and> set order = {..<nat (height s)} \<times> {..<nat (width s)}" for order
    using spec_pass_in_order_next_table [OF ok, of order] that tab by simp
  have "table_ok (width s) (height s) ?T"
    using next_table_ok [OF ok] tab by simp
  then have again:
    "life_ok (s\<lparr>cells_table := fresh_rows ?T, prev_cells_table := fresh_rows ?T\<rparr>)"
    by (simp add: life_ok_def table_rows_fresh own_rows_fresh)
  have gen: "run_generation s =
      Inr (s\<lparr>cells_table := fresh_rows ?T, prev_cells_table := fresh_rows ?T\<rparr>)"
    using main by (simp add: run_generation_def deepcopy_def)
  have "map (map alive) (map (map Cell) ?T) = ?T"
    by (simp add: comp_def)
  then show ?thesis
    using main game any_order gen again by (simp add: table_rows_fresh)
qed

lemma spec_step_row_of_three: "spec_step row_of_three 3 3 = column_of_three"
  by code_simp

text \<open>
  The row of three on the 3 by 3 table becomes the column of three in both programs, and
  also when the cells are visited column by column from the last column.
\<close>

theorem apply_rules_refines_update_grid_full_witness:
  "life_ok (life_of 3 3 row_of_three) \<and>
   prev_cells_table (life_of 3 3 row_of_three) = cells_table (life_of 3 3 row_of_three) \<and>
   (\<exists>s' g'. apply_rules (life_of 3 3 row_of_three) = Inr s' \<and>
      update_grid_full \<lparr>x_size = 3, y_size = 3, cells = map (map Cell) row_of_three\<rparr> = Inr g' \<and>
      table_rows (cells_table s') = map (map alive) (cells g') \<and>
      cells_table s' = fresh_rows column_of_three \<and>
      spec_pass_in_order (life_of 3 3 row_of_three) columns_backwards = Inr s')"
proof -
  let ?s = "life_of 3 3 row_of_three"
  have ok: "life_ok ?s"
    by (simp add: life_ok_def table_ok_def life_of_def row_of_three_def table_rows_fresh
        own_rows_fresh)
  have snap: "prev_cells_table ?s = cells_table ?s"
    by (simp add: life_of_def)
  have dims: "width ?s = 3" "height ?s = 3" "table_rows (cells_table ?s) = row_of_three"
    by (simp_all add: life_of_def table_rows_fresh)
  have three: "{..<nat 3} = {0, 1, 2}"
    by auto
  have "distinct columns_backwards"
    by (simp add: columns_backwards_def)
  moreover have "set columns_backwards = {0, 1, 2} \<times> {0, 1, 2}"
    by (auto simp: columns_backwards_def)
  ultimately have order: "distinct columns_backwards \<and>
      set columns_backwards = {..<nat (height ?s)} \<times> {..<nat (width ?s)}"
    unfolding dims three by (rule conjI)
  from apply_rules_refines_update_grid_full [OF ok snap]
  obtain s' g' where run: "apply_rules ?s = Inr s'"
    and grun: "update_grid_full \<lparr>x_size = width ?s, y_size = height ?s,
                             cells = map (map Cell) (table_rows (cells_table ?s))\<rparr> = Inr g'"
    and same: "table_rows (cells_table s') = map (map alive) (cells g')"
    and step: "cells_table s' =
                 fresh_rows (spec_step (table_rows (cells_table ?s)) (width ?s) (height ?s))"
    and any_order: "\<forall>order. distinct order \<and>
                    set order = {..<nat (height ?s)} \<times> {..<nat (width ?s)} \<longrightarrow>
                    spec_pass_in_order ?s order = Inr s'"
    by blast
  have in_order: "spec_pass_in_order ?s columns_backwards = Inr s'"
    by (rule any_order [rule_format, OF order])
  have col: "cells_table s' = fresh_rows column_of_three"
    using step unfolding dims by (simp only: spec_step_row_of_three)
  have grun': "update_grid_full \<lparr>x_size = 3, y_size = 3, cells = map (map Cell) row_of_three\<rparr> =
      Inr g'"
    using grun unfolding dims .
  have "apply_rules ?s = Inr s' \<and>
      update_grid_full \<lparr>x_size = 3, y_size = 3, cells = map (map Cell) row_of_three\<rparr> = Inr g' \<and>
      table_rows (cells_table s') = map (map alive) (cells g') \<and>
      cells_table s' = fresh_rows column_of_three \<and>
      spec_pass_in_order ?s columns_backwards = Inr s'"
    using run grun' same col in_order by (intro conjI)
  then have "\<exists>s' g'. apply_rules ?s = Inr s' \<and>
      update_grid_full \<lparr>x_size = 3, y_size = 3, cells = map (map Cell) row_of_three\<rparr> = Inr g' \<and>
      table_rows (cells_table s') = map (map alive) (cells g') \<and>
      cells_table s' = fresh_rows column_of_three \<and>
      spec_pass_in_order ?s columns_backwards = Inr s'"
    by (intro exI)
  with ok snap show ?thesis
    by (intro conjI)
qed

section \<open>An all-dead grid stays all dead\<close>

lemma spec_count_dead_table:
  "spec_count_live_neighbors (dead_table w h) w h r c = 0"
proof -
  have "spec_contribution (dead_table w h) w h r' c' = 0" for r' c'
    by (simp add: spec_contribution_def dead_table_def)
  then show ?thesis
    by (simp add: spec_count_live_neighbors_def spec_offsets_def)
qed

lemma dead_table_nth:
  "r < nat h \<Longrightarrow> c < nat w \<Longrightarrow> dead_table w h ! r ! c = False"
  by (simp add: dead_table_def)

lemma spec_step_dead_table: "spec_step (dead_table w h) w h = dead_table w h"
proof -
  have "map (\<lambda>c. spec_next_alive (dead_table w h ! r ! c)
               (spec_count_live_neighbors (dead_table w h) w h (int r) (int c))) [0..<nat w] =
        map (\<lambda>c. False) [0..<nat w]"
    if "r < nat h" for r
    using that
    by (intro map_cong) (simp_all add: spec_count_dead_table spec_next_alive_def dead_table_nth)
  then have "spec_step (dead_table w h) w h = map (\<lambda>r. map (\<lambda>c. False) [0..<nat w]) [0..<nat h]"
    unfolding spec_step_def by (intro map_cong) simp_all
  then show ?thesis
    by (simp add: map_replicate_const dead_table_def)
qed

lemma update_grid_y_no_columns:
  assumes "range1 (x_size g) = []"
  shows "update_grid_y g m ys = Inr m"
  using assms by (induction ys arbitrary: m) simp_all

lemma apply_rules_columns_unchanged:
  assumes "\<forall>c\<in>set cs. \<not> table_row (cells_table s) r ! c \<and>
             get_alive_neighbours s (int r) (int c) = Inr 0"
  shows "apply_rules_columns s r cs = Inr s"
  using assms by (induction cs) (simp_all add: apply_rules_cell_def)

lemma apply_rules_rows_unchanged:
  assumes "\<forall>r\<in>set rs. \<forall>c < length (table_row (cells_table s) r).
             \<not> table_row (cells_table s) r ! c \<and>
             get_alive_neighbours s (int r) (int c) = Inr 0"
  shows "apply_rules_rows s rs = Inr s"
  using assms by (induction rs) (simp_all add: apply_rules_columns_unchanged)

lemma apply_rules_dead:
  assumes cur: "table_rows (cells_table s) = dead_table (width s) (height s)"
    and prev: "table_rows (prev_cells_table s) = dead_table (width s) (height s)"
  shows "apply_rules s = Inr s"
proof -
  have "\<not> table_row (cells_table s) r ! c \<and> get_alive_neighbours s (int r) (int c) = Inr 0"
    if r: "r < length (row_refs (cells_table s))"
      and c: "c < length (table_row (cells_table s) r)" for r c
  proof -
    have row: "table_row (cells_table s) r = dead_table (width s) (height s) ! r"
      using table_rows_nth [OF r] cur by simp
    have rh: "r < nat (height s)"
      using r length_table_rows [of "cells_table s"] cur by (simp add: dead_table_def)
    then have cw: "c < nat (width s)"
      using c row by (simp add: dead_table_def)
    have "table_ok (width s) (height s) (dead_table (width s) (height s))"
      using rh cw by (simp add: table_ok_def dead_table_def list_all_length)
    then have "table_ok (width s) (height s) (table_rows (prev_cells_table s))"
      using prev by simp
    then have "get_alive_neighbours s (int r) (int c) = Inr 0"
      using get_alive_neighbours_spec [of s "int r" "int c"] prev
      by (simp add: spec_count_dead_table)
    then show ?thesis
      using rh cw row by (simp add: dead_table_nth)
  qed
  then show ?thesis
    unfolding apply_rules_def by (intro apply_rules_rows_unchanged) simp
qed

lemma table_rows_repeated_row:
  "table_rows (repeated_row (replicate (nat w) False) h) = dead_table w h"
  by (rule nth_equalityI)
    (simp_all add: table_rows_def table_row_def repeated_row_def dead_table_def)

lemma update_grid_full_dead: "update_grid_full (Grid_init w h) = Inr (Grid_init w h)"
proof (cases "0 < w \<and> 0 < h")
  case True
  let ?g = "Grid_init w h"
  have ok: "grid_ok ?g"
    using True by (simp add: grid_ok_def table_ok_def Grid_init_def list_all_length)
  have tab: "alive_table ?g = dead_table w h"
    by (simp add: alive_table_def Grid_init_def dead_table_def)
  have dims: "x_size ?g = w" "y_size ?g = h"
    by (simp_all add: Grid_init_def)
  have "grid_next_cells ?g = map (map Cell) (dead_table w h)"
    using grid_next_cells_spec [OF ok] spec_step_dead_table [of w h]
    by (simp only: tab dims)
  then have "grid_next_cells ?g = cells ?g"
    by (simp add: Grid_init_def dead_table_def)
  then show ?thesis
    using update_grid_full_next [OF ok] by simp
next
  case False
  then consider "w \<le> 0" | "h \<le> 0" by linarith
  then show ?thesis
  proof cases
    case 1
    then have "range1 (x_size (Grid_init w h)) = []"
      by (simp add: range1_def Grid_init_def)
    then show ?thesis
      by (simp add: update_grid_full_def update_grid_y_no_columns) (simp add: Grid_init_def)
  next
    case 2
    then show ?thesis
      by (simp add: update_grid_full_def range1_def Grid_init_def)
  qed
qed

text \<open>
  Claim C8. For every width \<open>w\<close> and height \<open>h\<close> (positive or not), one step of the
  all-dead grid of that size is the same all-dead grid: \<^verbatim>\<open>update_grid_full\<close> on the
  \<^verbatim>\<open>Grid\<close> just constructed returns it unchanged; the \<^verbatim>\<open>Life\<close> just constructed, whose
  tables hold one row object at every position, reads as the all-dead table and
  \<^verbatim>\<open>apply_rules\<close> returns it unchanged; and so it does any \<^verbatim>\<open>Life\<close> whose two tables
  read as the all-dead table of its dimensions, whether the rows are its positions' own
  or shared. No cell of these tables is alive.
\<close>

theorem step_all_dead_stays_dead:
  "update_grid_full (Grid_init w h) = Inr (Grid_init w h) \<and>
   (\<exists>L. Life_init (Some w) (Some h) clear terminal now (Inr ()) = Inr L \<and>
        table_rows (cells_table L) = dead_table w h \<and>
        table_rows (prev_cells_table L) = dead_table w h \<and>
        apply_rules L = Inr L) \<and>
   apply_rules (s\<lparr>width := w, height := h, cells_table := fresh_rows (dead_table w h),
                   prev_cells_table := fresh_rows (dead_table w h)\<rparr>) =
     Inr (s\<lparr>width := w, height := h, cells_table := fresh_rows (dead_table w h),
             prev_cells_table := fresh_rows (dead_table w h)\<rparr>) \<and>
   (table_rows (cells_table d) = dead_table (width d) (height d) \<and>
    table_rows (prev_cells_table d) = dead_table (width d) (height d) \<longrightarrow>
      apply_rules d = Inr d) \<and>
   list_all (list_all (\<lambda>c. \<not> alive c)) (cells (Grid_init w h)) \<and>
   list_all (list_all (\<lambda>b. \<not> b)) (dead_table w h)"
proof -
  let ?L = "\<lparr>width = w, height = h, clear_screen = clear,
             cells_table = repeated_row (replicate (nat w) False) h,
             prev_cells_table = repeated_row (replicate (nat w) False) h,
             start_time = now, frame_count = 0,
             should_regenerate_screen = False, new_width = None, new_height = None\<rparr>"
  let ?s = "s\<lparr>width := w, height := h, cells_table := fresh_rows (dead_table w h),
               prev_cells_table := fresh_rows (dead_table w h)\<rparr>"
  have init: "Life_init (Some w) (Some h) clear terminal now (Inr ()) = Inr ?L"
    by (simp add: Life_init_def sizes_or_terminal_def)
  have rows: "table_rows (cells_table ?L) = dead_table w h"
    "table_rows (prev_cells_table ?L) = dead_table w h"
    by (simp_all add: table_rows_repeated_row)
  have "apply_rules ?L = Inr ?L"
    using rows by (intro apply_rules_dead) simp_all
  with init rows have first: "\<exists>L. Life_init (Some w) (Some h) clear terminal now (Inr ()) = Inr L \<and>
        table_rows (cells_table L) = dead_table w h \<and>
        table_rows (prev_cells_table L) = dead_table w h \<and>
        apply_rules L = Inr L"
    by (intro exI [of _ ?L] conjI)
  have own: "apply_rules ?s = Inr ?s"
    by (intro apply_rules_dead) (simp_all add: table_rows_fresh)
  have any: "table_rows (cells_table d) = dead_table (width d) (height d) \<and>
      table_rows (prev_cells_table d) = dead_table (width d) (height d) \<longrightarrow>
      apply_rules d = Inr d"
    using apply_rules_dead [of d] by simp
  have grid_dead: "list_all (list_all (\<lambda>c. \<not> alive c)) (cells (Grid_init w h))"
    by (simp add: Grid_init_def list_all_length)
  have table_dead: "list_all (list_all (\<lambda>b. \<not> b)) (dead_table w h)"
    by (simp add: dead_table_def list_all_length)
  show ?thesis
    using update_grid_full_dead [of w h] first own any grid_dead table_dead
    by (intro conjI)
qed

text \<open>
  The 4 by 3 all-dead grid, in both programs. The \<^verbatim>\<open>Life\<close> is the one the constructor
  returns: each of its tables is one row of four dead cells, held by all three positions.
\<close>

theorem step_all_dead_stays_dead_witness:
  "update_grid_full (Grid_init 4 3) = Inr (Grid_init 4 3) \<and>
   (\<exists>L. Life_init (Some 4) (Some 3) True (Inr (80, 24)) 0 (Inr ()) = Inr L \<and>
        cells_table L =
          \<lparr>row_objects = [[False, False, False, False]], row_refs = [0, 0, 0]\<rparr> \<and>
        table_rows (cells_table L) = dead_table (width L) (height L) \<and>
        table_rows (prev_cells_table L) = dead_table (width L) (height L) \<and>
        apply_rules L = Inr L)"
proof -
  let ?L = "\<lparr>width = 4, height = 3, clear_screen = True,
             cells_table = repeated_row (replicate (nat 4) False) 3,
             prev_cells_table = repeated_row (replicate (nat 4) False) 3,
             start_time = 0, frame_count = 0,
             should_regenerate_screen = False, new_width = None, new_height = None\<rparr>"
  have init: "Life_init (Some 4) (Some 3) True (Inr (80, 24)) 0 (Inr ()) = Inr ?L"
    by (simp add: Life_init_def sizes_or_terminal_def)
  have shared: "cells_table ?L =
      \<lparr>row_objects = [[False, False, False, False]], row_refs = [0, 0, 0]\<rparr>"
    by (simp add: repeated_row_def numeral_3_eq_3 eval_nat_numeral)
  have rows: "table_rows (cells_table ?L) = dead_table (width ?L) (height ?L)"
    "table_rows (prev_cells_table ?L) = dead_table (width ?L) (height ?L)"
    using table_rows_repeated_row [of 4 3] by simp_all
  have "apply_rules ?L = Inr ?L"
    using step_all_dead_stays_dead [where d = ?L and w = 4 and h = 3] rows by blast
  with init shared rows have "Life_init (Some 4) (Some 3) True (Inr (80, 24)) 0 (Inr ()) = Inr ?L \<and>
        cells_table ?L =
          \<lparr>row_objects = [[False, False, False, False]], row_refs = [0, 0, 0]\<rparr> \<and>
        table_rows (cells_table ?L) = dead_table (width ?L) (height ?L) \<and>
        table_rows (prev_cells_table ?L) = dead_table (width ?L) (height ?L) \<and>
        apply_rules ?L = Inr ?L"
    by (intro conjI)
  then have "\<exists>L. Life_init (Some 4) (Some 3) True (Inr (80, 24)) 0 (Inr ()) = Inr L \<and>
        cells_table L =
          \<lparr>row_objects = [[False, False, False, False]], row_refs = [0, 0, 0]\<rparr> \<and>
        table_rows (cells_table L) = dead_table (width L) (height L) \<and>
        table_rows (prev_cells_table L) = dead_table (width L) (height L) \<and>
        apply_rules L = Inr L"
    by (rule exI [of _ ?L])
  moreover have "update_grid_full (Grid_init 4 3) = Inr (Grid_init 4 3)"
    using step_all_dead_stays_dead [where w = 4 and h = 3] by blast
  ultimately show ?thesis
    by (intro conjI)
qed

section \<open>The frame counter and the start time do not influence a pass\<close>

lemma sum_prev_cells_same:
  assumes "same_grid s1 s2"
  shows "sum_prev_cells s1 l = sum_prev_cells s2 l"
proof (induction l)
  case Nil
  show ?case by simp
next
  case (Cons p l)
  obtain r c where p: "p = (r, c)" by (cases p)
  have "width s1 = width s2" "height s1 = height s2"
    "prev_cells_table s1 = prev_cells_table s2"
    using assms by (simp_all add: same_grid_def)
  then show ?case
    unfolding p by (simp add: Cons.IH cong: sum.case_cong)
qed

lemma same_outcome_cases:
  "same_outcome r1 r2 \<longleftrightarrow>
     (\<exists>e. r1 = Inl e \<and> r2 = Inl e) \<or> (\<exists>a b. r1 = Inr a \<and> r2 = Inr b \<and> same_grid a b)"
  by (cases r1; cases r2) (auto simp: same_outcome_def)

lemma get_alive_neighbours_same:
  "same_grid s1 s2 \<Longrightarrow> get_alive_neighbours s1 r c = get_alive_neighbours s2 r c"
  by (simp add: get_alive_neighbours_def sum_prev_cells_same)

lemma write_cell_same:
  "same_grid s1 s2 \<Longrightarrow> same_outcome (write_cell s1 r c v) (write_cell s2 r c v)"
  by (auto simp: write_cell_def same_outcome_def same_grid_def split: sum.splits)

lemma write_cell_metadata:
  "write_cell s r c v = Inr s' \<Longrightarrow>
     frame_count s' = frame_count s \<and> start_time s' = start_time s"
  by (auto simp: write_cell_def split: sum.splits)

lemma same_outcome_refl: "same_grid s1 s2 \<Longrightarrow> same_outcome (Inr s1) (Inr s2)"
  by (simp add: same_outcome_def)

lemma apply_rules_cell_same:
  assumes "same_grid s1 s2"
  shows "same_outcome (apply_rules_cell s1 r c b) (apply_rules_cell s2 r c b)"
proof (cases "get_alive_neighbours s2 r c")
  case (Inl e)
  then show ?thesis
    using assms by (simp add: apply_rules_cell_def get_alive_neighbours_same same_outcome_def)
next
  case (Inr n)
  then show ?thesis
    using assms write_cell_same [OF assms] same_outcome_refl [OF assms]
    by (simp add: apply_rules_cell_def get_alive_neighbours_same)
qed

lemma apply_rules_cell_metadata:
  "apply_rules_cell s r c b = Inr s' \<Longrightarrow>
     frame_count s' = frame_count s \<and> start_time s' = start_time s"
  using write_cell_metadata [of s r c]
  by (auto simp: apply_rules_cell_def split: sum.splits if_splits)

lemma apply_rules_columns_same:
  assumes "same_grid s1 s2"
  shows "same_outcome (apply_rules_columns s1 r cs) (apply_rules_columns s2 r cs)"
  using assms
proof (induction cs arbitrary: s1 s2)
  case Nil
  then show ?case by (simp add: same_outcome_def)
next
  case (Cons c cs)
  have eq: "cells_table s1 = cells_table s2"
    using Cons.prems by (simp add: same_grid_def)
  have "same_outcome
      (apply_rules_cell s1 (int r) (int c) (table_row (cells_table s2) r ! c))
      (apply_rules_cell s2 (int r) (int c) (table_row (cells_table s2) r ! c))"
    using Cons.prems by (rule apply_rules_cell_same)
  then consider e where "apply_rules_cell s1 (int r) (int c) (table_row (cells_table s2) r ! c) = Inl e"
      and "apply_rules_cell s2 (int r) (int c) (table_row (cells_table s2) r ! c) = Inl e"
    | a b where "apply_rules_cell s1 (int r) (int c) (table_row (cells_table s2) r ! c) = Inr a"
      and "apply_rules_cell s2 (int r) (int c) (table_row (cells_table s2) r ! c) = Inr b"
      and "same_grid a b"
    unfolding same_outcome_cases by blast
  then show ?case
  proof cases
    case 1
    then show ?thesis by (simp add: eq same_outcome_def)
  next
    case 2
    then show ?thesis using Cons.IH [of a b] by (simp add: eq)
  qed
qed

lemma apply_rules_columns_metadata:
  "apply_rules_columns s r cs = Inr s' \<Longrightarrow>
     frame_count s' = frame_count s \<and> start_time s' = start_time s"
proof (induction cs arbitrary: s)
  case Nil
  then show ?case by simp
next
  case (Cons c cs)
  then show ?case
    using apply_rules_cell_metadata [of s "int r" "int c"]
    by (auto split: sum.splits)
qed

lemma apply_rules_rows_same:
  assumes "same_grid s1 s2"
  shows "same_outcome (apply_rules_rows s1 rs) (apply_rules_rows s2 rs)"
  using assms
proof (induction rs arbitrary: s1 s2)
  case Nil
  then show ?case by (simp add: same_outcome_def)
next
  case (Cons r rs)
  have eq: "cells_table s1 = cells_table s2"
    using Cons.prems by (simp add: same_grid_def)
  have "same_outcome
      (apply_rules_columns s1 r [0..<length (table_row (cells_table s2) r)])
      (apply_rules_columns s2 r [0..<length (table_row (cells_table s2) r)])"
    using Cons.prems by (rule apply_rules_columns_same)
  then consider e where "apply_rules_columns s1 r [0..<length (table_row (cells_table s2) r)] = Inl e"
      and "apply_rules_columns s2 r [0..<length (table_row (cells_table s2) r)] = Inl e"
    | a b where "apply_rules_columns s1 r [0..<length (table_row (cells_table s2) r)] = Inr a"
      and "apply_rules_columns s2 r [0..<length (table_row (cells_table s2) r)] = Inr b"
      and "same_grid a b"
    unfolding same_outcome_cases by blast
  then show ?case
  proof cases
    case 1
    then show ?thesis by (simp add: eq same_outcome_def)
  next
    case 2
    then show ?thesis using Cons.IH [of a b] by (simp add: eq)
  qed
qed

lemma apply_rules_rows_metadata:
  "apply_rules_rows s rs = Inr s' \<Longrightarrow>
     frame_count s' = frame_count s \<and> start_time s' = start_time s"
proof (induction rs arbitrary: s)
  case Nil
  then show ?case by simp
next
  case (Cons r rs)
  then show ?case
    using apply_rules_columns_metadata [of s r]
    by (auto split: sum.splits)
qed

text \<open>
  Claim C10. Let two \<^verbatim>\<open>Life\<close> objects have the same width, height, current table and
  previous table; their \<^verbatim>\<open>frame_count\<close>, \<^verbatim>\<open>start_time\<close> and other fields may differ.
  Then \<^verbatim>\<open>get_alive_neighbours\<close> returns the same on both for every cell, and
  \<^verbatim>\<open>apply_rules\<close> either raises the same error on both or returns on both, with equal
  tables and dimensions; and the pass leaves each object's own \<^verbatim>\<open>frame_count\<close> and
  \<^verbatim>\<open>start_time\<close> as they were.
\<close>

theorem metadata_noninterference:
  assumes "width s1 = width s2" and "height s1 = height s2"
    and "cells_table s1 = cells_table s2" and "prev_cells_table s1 = prev_cells_table s2"
  shows "get_alive_neighbours s1 r c = get_alive_neighbours s2 r c \<and>
         ((\<exists>e. apply_rules s1 = Inl e \<and> apply_rules s2 = Inl e) \<or>
          (\<exists>a b. apply_rules s1 = Inr a \<and> apply_rules s2 = Inr b \<and>
             cells_table a = cells_table b \<and> prev_cells_table a = prev_cells_table b \<and>
             width a = width b \<and> height a = height b \<and>
             frame_count a = frame_count s1 \<and> start_time a = start_time s1 \<and>
             frame_count b = frame_count s2 \<and> start_time b = start_time s2))"
proof -
  have same: "same_grid s1 s2"
    using assms by (simp add: same_grid_def)
  have "same_outcome (apply_rules s1) (apply_rules s2)"
    using apply_rules_rows_same [OF same, of "[0..<length (row_refs (cells_table s2))]"] assms(3)
    by (simp add: apply_rules_def)
  moreover have "frame_count a = frame_count s \<and> start_time a = start_time s"
    if "apply_rules s = Inr a" for s a
    using that apply_rules_rows_metadata [of s _ a] by (simp add: apply_rules_def)
  ultimately have "(\<exists>e. apply_rules s1 = Inl e \<and> apply_rules s2 = Inl e) \<or>
          (\<exists>a b. apply_rules s1 = Inr a \<and> apply_rules s2 = Inr b \<and>
             cells_table a = cells_table b \<and> prev_cells_table a = prev_cells_table b \<and>
             width a = width b \<and> height a = height b \<and>
             frame_count a = frame_count s1 \<and> start_time a = start_time s1 \<and>
             frame_count b = frame_count s2 \<and> start_time b = start_time s2)"
    by (cases "apply_rules s1"; cases "apply_rules s2")
      (auto simp: same_outcome_def same_grid_def)
  then show ?thesis
    using get_alive_neighbours_same [OF same] by simp
qed

text \<open>
  The row of three stepped once, with frame count 0 and with frame count 41 and start
  time 7: the same column of three.
\<close>

theorem metadata_noninterference_witness:
  "(\<exists>a b. apply_rules (life_of 3 3 row_of_three) = Inr a \<and>
      apply_rules ((life_of 3 3 row_of_three)\<lparr>frame_count := 41, start_time := 7\<rparr>) = Inr b \<and>
      cells_table a = cells_table b \<and> cells_table a = fresh_rows column_of_three \<and>
      frame_count a = 0 \<and> frame_count b = 41 \<and> start_time b = 7)"
proof -
  let ?s1 = "life_of 3 3 row_of_three"
  let ?s2 = "(life_of 3 3 row_of_three)\<lparr>frame_count := 41, start_time := 7\<rparr>"
  have run: "map_sum id cells_table (apply_rules ?s1) = Inr (fresh_rows column_of_three)"
    by code_simp
  have meta: "frame_count ?s1 = 0" "frame_count ?s2 = 41" "start_time ?s2 = 7"
    by (simp_all add: life_of_def)
  have "width ?s1 = width ?s2" "height ?s1 = height ?s2"
    "cells_table ?s1 = cells_table ?s2" "prev_cells_table ?s1 = prev_cells_table ?s2"
    by simp_all
  from metadata_noninterference [OF this, of 0 0] run meta
  show ?thesis
    by (cases "apply_rules ?s1") auto
qed

section \<open>Construction\<close>

text \<open>
  The rows of a \<^verbatim>\<open>Life\<close> just constructed are one object. On the 3 by 3 object, every
  position of the current table holds row object 0, and the assignment
  \<^verbatim>\<open>cells_table[0][1] = True\<close> shows in all three rows. (The specification, section 9,
  names this row replication; \<^verbatim>\<open>run\<close> replaces both tables by tables with rows of
  their own, in \<^verbatim>\<open>randomize_table\<close>, before any cell is written.)
\<close>

lemma constructor_rows_shared:
  "\<exists>L t. Life_init (Some 3) (Some 3) clear terminal now (Inr ()) = Inr L \<and>
      cells_table L = \<lparr>row_objects = [[False, False, False]], row_refs = [0, 0, 0]\<rparr> \<and>
      \<not> own_rows (cells_table L) \<and>
      table_setitem (cells_table L) 0 1 True = Inr t \<and>
      table_rows t = [[False, True, False], [False, True, False], [False, True, False]]"
  by (simp add: Life_init_def sizes_or_terminal_def repeated_row_def own_rows_def
      table_setitem_def getitem_def setitem_def list_pos_def table_rows_def table_row_def
      numeral_3_eq_3 upt_rec)




section \<open>main.py: a pending resize in run\<close>

lemma run_resize_zero_ignored:
  "new_width s = Some 0 \<or> new_height s = Some 0 \<or> new_width s = None \<or> new_height s = None \<Longrightarrow>
     run_resize s rnd now = Inr s"
  by (auto simp: run_resize_def split: option.splits)

text \<open>
  Claim C6 does not hold of the code. The test \<^verbatim>\<open>if self.new_width and self.new_height\<close>
  (commented \<^verbatim>\<open>TODO: handle 0s?\<close>) skips a request with a zero, but a negative number is
  true in Python. \<^verbatim>\<open>update_window_size(-5, 2)\<close> records the request without looking at
  the terminal, and the next pass of \<^verbatim>\<open>run\<close> sets the width to \<open>-5\<close> and replaces the
  3 by 3 table by two empty rows; after \<^verbatim>\<open>update_window_size(5, -3)\<close> the next pass
  sets the height to \<open>-3\<close>, leaves no rows, and \<^verbatim>\<open>print_cells_table\<close> raises:
  \<^verbatim>\<open>IndexError\<close> at \<^verbatim>\<open>output_rows[0]\<close>, or already \<^verbatim>\<open>ZeroDivisionError\<close> if the clock
  has not advanced since the resize. Either ends \<^verbatim>\<open>run\<close>.
\<close>

theorem run_resize_negative_applied:
  "(\<exists>s1. update_window_size (life_of 3 3 row_of_three) (Some (- 5)) (Some 2) terminal = Inr s1 \<and>
      map_sum id (\<lambda>s'. (width s', height s', table_rows (cells_table s')))
        (run_resize s1 rnd now) =
        Inr (- 5, 2, [[], []])) \<and>
   (\<exists>s2. update_window_size (life_of 3 3 row_of_three) (Some 5) (Some (- 3)) terminal = Inr s2 \<and>
      run_iteration s2 rnd now print_time info =
        Inl (if print_time = now then ZeroDivisionError else IndexError))"
proof -
  let ?s1 = "(life_of 3 3 row_of_three)\<lparr>should_regenerate_screen := True,
               new_width := Some (- 5), new_height := Some 2\<rparr>"
  let ?s2 = "(life_of 3 3 row_of_three)\<lparr>should_regenerate_screen := True,
               new_width := Some 5, new_height := Some (- 3)\<rparr>"
  have req1: "update_window_size (life_of 3 3 row_of_three) (Some (- 5)) (Some 2) terminal =
      Inr ?s1"
    by (simp add: update_window_size_def sizes_or_terminal_def)
  have req2: "update_window_size (life_of 3 3 row_of_three) (Some 5) (Some (- 3)) terminal =
      Inr ?s2"
    by (simp add: update_window_size_def sizes_or_terminal_def)
  have range_neg: "py_range 0 (- 10) (- 5) = Inr [0, - 5]"
    by (simp add: py_range_def eval_nat_numeral)
  have a: "map_sum id (\<lambda>s'. (width s', height s', table_rows (cells_table s')))
     (run_resize ?s1 rnd now) = Inr (- 5, 2, [[], []])"
    by (simp add: run_resize_def life_of_def randomize_table_def
        random_choices_def range_neg slice_def Let_def table_rows_fresh)
  have range_pos: "py_range 0 (- 15) 5 = Inr []"
    by (simp add: py_range_def)
  have r: "run_resize ?s2 rnd now =
      Inr ((life_of 3 3 row_of_three)\<lparr>should_regenerate_screen := True, width := 5, height := - 3,
             cells_table := fresh_rows [], prev_cells_table := fresh_rows [],
             new_width := None, new_height := None,
             start_time := now, frame_count := 0\<rparr>)"
    by (simp add: run_resize_def life_of_def randomize_table_def
        random_choices_def range_pos Let_def deepcopy_def)
  have b: "run_iteration ?s2 rnd now print_time info =
     Inl (if print_time = now then ZeroDivisionError else IndexError)"
    unfolding run_iteration_def r
    by (simp add: run_generation_def apply_rules_def print_cells_table_def range1_def
        getitem_def list_pos_def life_of_def fresh_rows_def deepcopy_def)
  show ?thesis
    using req1 req2 a b by (intro conjI exI [of _ ?s1] exI [of _ ?s2])
qed

lemma slice_bound_nat: "slice_bound n (int i) = min i n"
  by (simp add: slice_bound_def)

lemma slice_chunk:
  assumes "k < H"
  shows "slice (map rnd [0..<W * H]) (int (k * W)) (int (k * W + W)) = map rnd [k * W..<k * W + W]"
proof -
  have "Suc k \<le> H" using assms by simp
  then have "Suc k * W \<le> H * W" by (rule mult_le_mono1)
  then have le: "k * W + W \<le> W * H" by (simp add: mult.commute)
  then have le0: "k * W \<le> W * H" by linarith
  have "slice (map rnd [0..<W * H]) (int (k * W)) (int (k * W + W)) =
        take (k * W + W - k * W) (drop (k * W) (map rnd [0..<W * H]))"
    unfolding slice_def slice_bound_nat using le le0 by (simp add: min_absorb1)
  also have "\<dots> = map rnd (take W [k * W..<W * H])"
    by (simp add: drop_map take_map)
  also have "take W [k * W..<W * H] = [k * W..<k * W + W]"
    using le by (simp add: take_upt)
  finally show ?thesis .
qed

lemma py_range_chunks:
  assumes "1 \<le> w" and "0 \<le> h"
  shows "py_range 0 (w * h) w = Inr (map (\<lambda>k. int k * w) [0..<nat h])"
proof -
  have "(w * h - 0 + w - 1) div w = ((w - 1) + h * w) div w"
    by (simp add: algebra_simps)
  also have "\<dots> = h"
    using assms by (simp add: div_pos_pos_trivial)
  finally have "nat ((w * h - 0 + w - 1) div w) = nat h"
    by simp
  then show ?thesis
    using assms unfolding py_range_def by (simp only: if_True if_False) auto
qed

lemma slice_chunks:
  "map (\<lambda>i. slice (map rnd [0..<W * H]) i (i + int W)) (map (\<lambda>k. int k * int W) [0..<H]) =
     map (\<lambda>i. map (\<lambda>j. rnd (i * W + j)) [0..<W]) [0..<H]"
proof -
  have "slice (map rnd [0..<W * H]) (int k * int W) (int k * int W + int W) =
      map (\<lambda>j. rnd (k * W + j)) [0..<W]"
    if "k < H" for k
  proof -
    have "slice (map rnd [0..<W * H]) (int k * int W) (int k * int W + int W) =
        slice (map rnd [0..<W * H]) (int (k * W)) (int (k * W + W))"
      by (simp only: of_nat_mult of_nat_add)
    also have "\<dots> = map rnd [k * W..<k * W + W]"
      using that by (rule slice_chunk)
    also have "[k * W..<k * W + W] = map (\<lambda>j. j + k * W) [0..<W]"
      by (simp add: map_add_upt add.commute)
    finally show ?thesis
      by (simp add: comp_def add.commute)
  qed
  then show ?thesis
    unfolding map_map comp_def by (intro map_cong) simp_all
qed

lemma randomize_table_valid:
  assumes w: "1 \<le> width s" and h: "1 \<le> height s"
  shows "randomize_table s rnd =
           Inr (s\<lparr>cells_table := fresh_rows (random_table rnd (width s) (height s)),
                   prev_cells_table := fresh_rows (random_table rnd (width s) (height s))\<rparr>)"
proof -
  obtain W H where W: "width s = int W" and H: "height s = int H"
    using w h by (metis nonneg_int_cases order_trans zero_le_one)
  have vals: "random_choices rnd (int W * int H) = map rnd [0..<W * H]"
    by (simp add: random_choices_def nat_mult_distrib)
  have range: "py_range 0 (int W * int H) (int W) = Inr (map (\<lambda>k. int k * int W) [0..<H])"
    using py_range_chunks [of "int W" "int H"] w W by simp
  have "map (\<lambda>i. slice (map rnd [0..<W * H]) i (i + int W)) (map (\<lambda>k. int k * int W) [0..<H]) =
      random_table rnd (int W) (int H)"
    by (simp only: slice_chunks random_table_def nat_int)
  then show ?thesis
    unfolding randomize_table_def Let_def W H vals range deepcopy_def by simp
qed

lemma random_table_ok:
  "0 \<le> w \<Longrightarrow> 0 \<le> h \<Longrightarrow> table_ok w h (random_table rnd w h)"
  by (simp add: table_ok_def random_table_def list_all_length)

text \<open>
  Claim C7. When \<^verbatim>\<open>new_width\<close> and \<^verbatim>\<open>new_height\<close> hold a request \<open>w \<ge> 1\<close>, \<open>h \<ge> 1\<close>,
  the resize block of \<^verbatim>\<open>run\<close> returns normally with \<^verbatim>\<open>width = w\<close> and \<^verbatim>\<open>height = h\<close>
  and a table of exactly \<open>h\<close> rows of exactly \<open>w\<close> cells, each row an object of its
  own, in which cell \<open>(i, j)\<close> is the fresh random draw number \<open>i * w + j\<close>, whatever
  the old table and old dimensions were; the previous table is a copy of it, the request
  is cleared, the frame count is 0 and the start time is the current time.
\<close>

theorem resize_replaces_grid:
  assumes "new_width s = Some w" and "new_height s = Some h" and "1 \<le> w" and "1 \<le> h"
  shows "\<exists>s'. run_resize s rnd now = Inr s' \<and>
           width s' = w \<and> height s' = h \<and> life_ok s' \<and>
           length (table_rows (cells_table s')) = nat h \<and>
           list_all (\<lambda>row. length row = nat w) (table_rows (cells_table s')) \<and>
           (\<forall>i j. i < nat h \<and> j < nat w \<longrightarrow>
              table_rows (cells_table s') ! i ! j = rnd (i * nat w + j)) \<and>
           prev_cells_table s' = cells_table s' \<and>
           frame_count s' = 0 \<and> start_time s' = now \<and>
           new_width s' = None \<and> new_height s' = None"
proof -
  let ?s1 = "s\<lparr>width := w, height := h\<rparr>"
  let ?T = "random_table rnd w h"
  let ?s' = "?s1\<lparr>cells_table := fresh_rows ?T, prev_cells_table := fresh_rows ?T,
                 new_width := None, new_height := None, start_time := now, frame_count := 0\<rparr>"
  have "randomize_table ?s1 rnd =
      Inr (?s1\<lparr>cells_table := fresh_rows ?T, prev_cells_table := fresh_rows ?T\<rparr>)"
    using randomize_table_valid [of ?s1 rnd] assms(3,4) by simp
  then have run: "run_resize s rnd now = Inr ?s'"
    using assms by (simp add: run_resize_def)
  have ok: "table_ok w h ?T"
    using assms(3,4) by (intro random_table_ok) simp_all
  have cells: "table_rows (cells_table ?s') ! i ! j = rnd (i * nat w + j)"
    if "i < nat h \<and> j < nat w" for i j
    using that by (simp add: random_table_def table_rows_fresh)
  have shape: "length (table_rows (cells_table ?s')) = nat h"
    "list_all (\<lambda>row. length row = nat w) (table_rows (cells_table ?s'))"
    by (simp_all add: random_table_def list_all_length table_rows_fresh)
  show ?thesis
    using run ok cells shape
    by (intro exI [of _ ?s']) (simp add: life_ok_def table_rows_fresh own_rows_fresh)
qed

text \<open>
  A 3 by 3 \<^verbatim>\<open>Life\<close> asked for 2 by 1, with a random source whose draw number 1 alone is
  \<^verbatim>\<open>True\<close>.
\<close>

theorem resize_replaces_grid_witness:
  "(\<exists>s0 s'. update_window_size (life_of 3 3 row_of_three) (Some 2) (Some 1) (Inr (80, 24)) =
              Inr s0 \<and>
      run_resize s0 (\<lambda>i. i = 1) 5 = Inr s' \<and>
      width s' = 2 \<and> height s' = 1 \<and> table_rows (cells_table s') = [[False, True]] \<and>
      frame_count s' = 0 \<and> start_time s' = 5)"
proof -
  let ?s = "(life_of 3 3 row_of_three)\<lparr>should_regenerate_screen := True,
              new_width := Some 2, new_height := Some 1\<rparr>"
  have request: "update_window_size (life_of 3 3 row_of_three) (Some 2) (Some 1) (Inr (80, 24)) =
      Inr ?s"
    by (simp add: update_window_size_def sizes_or_terminal_def)
  have req: "new_width ?s = Some 2" "new_height ?s = Some 1"
    by simp_all
  from resize_replaces_grid [OF req, of "\<lambda>i. i = 1" 5]
  obtain s' where run: "run_resize ?s (\<lambda>i. i = 1) 5 = Inr s'"
    and dims: "width s' = 2" "height s' = 1"
    and len: "length (table_rows (cells_table s')) = nat 1"
    and rows: "list_all (\<lambda>row. length row = nat 2) (table_rows (cells_table s'))"
    and cells: "\<forall>i j. i < nat 1 \<and> j < nat 2 \<longrightarrow>
                  table_rows (cells_table s') ! i ! j = (i * nat 2 + j = 1)"
    and meta: "frame_count s' = 0" "start_time s' = 5"
    by auto
  let ?C = "table_rows (cells_table s')"
  have "?C = [[False, True]]"
  proof (rule nth_equalityI)
    show "length ?C = length [[False, True]]"
      using len by simp
  next
    fix i assume "i < length ?C"
    then have i: "i = 0" using len by simp
    have l: "length (?C ! 0) = 2"
      using rows len by (simp add: list_all_length)
    have "?C ! 0 = [False, True]"
    proof (rule nth_equalityI)
      show "length (?C ! 0) = length [False, True]"
        using l by simp
    next
      fix j assume "j < length (?C ! 0)"
      then have "j = 0 \<or> j = 1" using l by auto
      then show "?C ! 0 ! j = [False, True] ! j"
        using cells [rule_format, of 0 j] by auto
    qed
    then show "?C ! i = [[False, True]] ! i"
      using i by simp
  qed
  then show ?thesis
    using request run dims meta by (intro exI [of _ ?s] exI [of _ s']) simp
qed

section \<open>The blinker\<close>

lemma contribution_blinker_row:
  assumes "1 \<le> c" "c + 1 < w" "0 \<le> r" "r < h"
  shows "spec_contribution (blinker_row w h r c) w h row col =
           (if row = r \<and> c - 1 \<le> col \<and> col \<le> c + 1 then 1 else 0)"
proof (cases "0 \<le> row \<and> row < h \<and> 0 \<le> col \<and> col < w")
  case True
  then have "nat row < nat h" "nat col < nat w" by linarith+
  then have "blinker_row w h r c ! nat row ! nat col =
      (row = r \<and> c - 1 \<le> col \<and> col \<le> c + 1)"
    using True by (simp add: blinker_row_def)
  then show ?thesis
    using True by (simp add: spec_contribution_def)
next
  case False
  then show ?thesis
    using assms by (auto simp: spec_contribution_def)
qed

lemma contribution_blinker_column:
  assumes "1 \<le> r" "r + 1 < h" "0 \<le> c" "c < w"
  shows "spec_contribution (blinker_column w h r c) w h row col =
           (if col = c \<and> r - 1 \<le> row \<and> row \<le> r + 1 then 1 else 0)"
proof (cases "0 \<le> row \<and> row < h \<and> 0 \<le> col \<and> col < w")
  case True
  then have "nat row < nat h" "nat col < nat w" by linarith+
  then have "blinker_column w h r c ! nat row ! nat col =
      (col = c \<and> r - 1 \<le> row \<and> row \<le> r + 1)"
    using True by (simp add: blinker_column_def)
  then show ?thesis
    using True by (simp add: spec_contribution_def)
next
  case False
  then show ?thesis
    using assms by (auto simp: spec_contribution_def)
qed

lemma rule_blinker_row:
  fixes i j r c :: int
  shows "spec_next_alive (i = r \<and> c - 1 \<le> j \<and> j \<le> c + 1)
     ((if i - 1 = r \<and> c - 1 \<le> j - 1 \<and> j - 1 \<le> c + 1 then 1 else 0) +
      ((if i - 1 = r \<and> c - 1 \<le> j \<and> j \<le> c + 1 then 1 else 0) +
      ((if i - 1 = r \<and> c - 1 \<le> j + 1 \<and> j + 1 \<le> c + 1 then 1 else 0) +
      ((if i = r \<and> c - 1 \<le> j - 1 \<and> j - 1 \<le> c + 1 then 1 else 0) +
      ((if i = r \<and> c - 1 \<le> j + 1 \<and> j + 1 \<le> c + 1 then 1 else 0) +
      ((if i + 1 = r \<and> c - 1 \<le> j - 1 \<and> j - 1 \<le> c + 1 then 1 else 0) +
      ((if i + 1 = r \<and> c - 1 \<le> j \<and> j \<le> c + 1 then 1 else 0) +
       (if i + 1 = r \<and> c - 1 \<le> j + 1 \<and> j + 1 \<le> c + 1 then 1 else 0)))))))) =
     (j = c \<and> r - 1 \<le> i \<and> i \<le> r + 1)"
  unfolding spec_next_alive_def
  by (auto split: if_splits)

lemma rule_blinker_column:
  fixes i j r c :: int
  shows "spec_next_alive (j = c \<and> r - 1 \<le> i \<and> i \<le> r + 1)
     ((if j - 1 = c \<and> r - 1 \<le> i - 1 \<and> i - 1 \<le> r + 1 then 1 else 0) +
      ((if j = c \<and> r - 1 \<le> i - 1 \<and> i - 1 \<le> r + 1 then 1 else 0) +
      ((if j + 1 = c \<and> r - 1 \<le> i - 1 \<and> i - 1 \<le> r + 1 then 1 else 0) +
      ((if j - 1 = c \<and> r - 1 \<le> i \<and> i \<le> r + 1 then 1 else 0) +
      ((if j + 1 = c \<and> r - 1 \<le> i \<and> i \<le> r + 1 then 1 else 0) +
      ((if j - 1 = c \<and> r - 1 \<le> i + 1 \<and> i + 1 \<le> r + 1 then 1 else 0) +
      ((if j = c \<and> r - 1 \<le> i + 1 \<and> i + 1 \<le> r + 1 then 1 else 0) +
       (if j + 1 = c \<and> r - 1 \<le> i + 1 \<and> i + 1 \<le> r + 1 then 1 else 0)))))))) =
     (i = r \<and> c - 1 \<le> j \<and> j \<le> c + 1)"
  unfolding spec_next_alive_def
  by (auto split: if_splits)

lemma spec_step_blinker_row:
  assumes "1 \<le> r" "r + 1 < h" "1 \<le> c" "c + 1 < w"
  shows "spec_step (blinker_row w h r c) w h = blinker_column w h r c"
proof -
  have cell: "spec_next_alive (blinker_row w h r c ! i ! j)
        (spec_count_live_neighbors (blinker_row w h r c) w h (int i) (int j)) =
      (int j = c \<and> r - 1 \<le> int i \<and> int i \<le> r + 1)"
    if "i < nat h" "j < nat w" for i j
  proof -
    have here: "blinker_row w h r c ! i ! j = (int i = r \<and> c - 1 \<le> int j \<and> int j \<le> c + 1)"
      using that by (simp add: blinker_row_def)
    have con: "\<And>row col. spec_contribution (blinker_row w h r c) w h row col =
           (if row = r \<and> c - 1 \<le> col \<and> col \<le> c + 1 then 1 else 0)"
      using assms by (intro contribution_blinker_row) simp_all
    show ?thesis
      unfolding here spec_count_live_neighbors_def spec_offsets_def
      using rule_blinker_row [of "int i" r c "int j"]
      by (simp add: con)
  qed
  show ?thesis
    unfolding spec_step_def blinker_column_def
    by (intro map_cong refl) (simp add: cell)
qed

lemma spec_step_blinker_column:
  assumes "1 \<le> r" "r + 1 < h" "1 \<le> c" "c + 1 < w"
  shows "spec_step (blinker_column w h r c) w h = blinker_row w h r c"
proof -
  have cell: "spec_next_alive (blinker_column w h r c ! i ! j)
        (spec_count_live_neighbors (blinker_column w h r c) w h (int i) (int j)) =
      (int i = r \<and> c - 1 \<le> int j \<and> int j \<le> c + 1)"
    if "i < nat h" "j < nat w" for i j
  proof -
    have here: "blinker_column w h r c ! i ! j = (int j = c \<and> r - 1 \<le> int i \<and> int i \<le> r + 1)"
      using that by (simp add: blinker_column_def)
    have con: "\<And>row col. spec_contribution (blinker_column w h r c) w h row col =
           (if col = c \<and> r - 1 \<le> row \<and> row \<le> r + 1 then 1 else 0)"
      using assms by (intro contribution_blinker_column) simp_all
    show ?thesis
      unfolding here spec_count_live_neighbors_def spec_offsets_def
      using rule_blinker_column [of "int j" c r "int i"]
      by (simp add: con)
  qed
  show ?thesis
    unfolding spec_step_def blinker_row_def
    by (intro map_cong refl) (simp add: cell)
qed

lemma blinker_tables_ok:
  assumes "0 \<le> w" "0 \<le> h"
  shows "table_ok w h (blinker_row w h r c)" and "table_ok w h (blinker_column w h r c)"
  using assms by (simp_all add: table_ok_def blinker_row_def blinker_column_def list_all_length)

lemma run_generation_spec_step:
  assumes "table_ok w h t"
  shows "run_generation (s\<lparr>width := w, height := h, cells_table := fresh_rows t, prev_cells_table := fresh_rows t\<rparr>) =
           Inr (s\<lparr>width := w, height := h, cells_table := fresh_rows (spec_step t w h),
                   prev_cells_table := fresh_rows (spec_step t w h)\<rparr>)"
proof -
  let ?s = "s\<lparr>width := w, height := h, cells_table := fresh_rows t, prev_cells_table := fresh_rows t\<rparr>"
  have ok: "life_ok ?s"
    using assms by (simp add: life_ok_def table_rows_fresh own_rows_fresh)
  have snap: "prev_cells_table ?s = cells_table ?s"
    by simp
  show ?thesis
    using apply_rules_next_table [OF ok] next_table_spec_step [OF snap]
    by (simp add: run_generation_def deepcopy_def table_rows_fresh)
qed

lemma update_grid_full_spec_step:
  assumes "table_ok w h t"
  shows "update_grid_full \<lparr>x_size = w, y_size = h, cells = map (map Cell) t\<rparr> =
           Inr \<lparr>x_size = w, y_size = h, cells = map (map Cell) (spec_step t w h)\<rparr>"
proof -
  let ?g = "\<lparr>x_size = w, y_size = h, cells = map (map Cell) t\<rparr>"
  have ok: "grid_ok ?g"
    using assms by (rule grid_of_life_ok)
  show ?thesis
    using update_grid_full_next [OF ok] grid_next_cells_spec [OF ok]
    by (simp add: alive_table_of_life)
qed

text \<open>
  Claim C9, as the code has it. On a grid of width and height at least 5 whose only live
  cells are three side by side in one row, with that row neither the first nor the last
  row of the grid, one step of either program yields the three cells one above the other
  about the middle cell and nothing else alive, and one more step yields the original
  grid again. (\<open>1 \<le> c\<close> and \<open>c + 1 < w\<close> say that the three cells lie in the grid.)
\<close>

theorem blinker_oscillates:
  assumes "5 \<le> w" and "5 \<le> h" and "1 \<le> r" and "r + 1 < h" and "1 \<le> c" and "c + 1 < w"
  shows "update_grid_full \<lparr>x_size = w, y_size = h, cells = map (map Cell) (blinker_row w h r c)\<rparr> =
           Inr \<lparr>x_size = w, y_size = h, cells = map (map Cell) (blinker_column w h r c)\<rparr> \<and>
         update_grid_full \<lparr>x_size = w, y_size = h, cells = map (map Cell) (blinker_column w h r c)\<rparr> =
           Inr \<lparr>x_size = w, y_size = h, cells = map (map Cell) (blinker_row w h r c)\<rparr> \<and>
         run_generation (s\<lparr>width := w, height := h, cells_table := fresh_rows (blinker_row w h r c),
                            prev_cells_table := fresh_rows (blinker_row w h r c)\<rparr>) =
           Inr (s\<lparr>width := w, height := h, cells_table := fresh_rows (blinker_column w h r c),
                   prev_cells_table := fresh_rows (blinker_column w h r c)\<rparr>) \<and>
         run_generation (s\<lparr>width := w, height := h, cells_table := fresh_rows (blinker_column w h r c),
                            prev_cells_table := fresh_rows (blinker_column w h r c)\<rparr>) =
           Inr (s\<lparr>width := w, height := h, cells_table := fresh_rows (blinker_row w h r c),
                   prev_cells_table := fresh_rows (blinker_row w h r c)\<rparr>)"
proof -
  have dims: "0 \<le> w" "0 \<le> h"
    using assms by simp_all
  have rc: "spec_step (blinker_row w h r c) w h = blinker_column w h r c"
    using assms(3-6) by (rule spec_step_blinker_row)
  have cr: "spec_step (blinker_column w h r c) w h = blinker_row w h r c"
    using assms(3-6) by (rule spec_step_blinker_column)
  show ?thesis
    using update_grid_full_spec_step [OF blinker_tables_ok(1) [OF dims], of r c]
      update_grid_full_spec_step [OF blinker_tables_ok(2) [OF dims], of r c]
      run_generation_spec_step [OF blinker_tables_ok(1) [OF dims], of r c s]
      run_generation_spec_step [OF blinker_tables_ok(2) [OF dims], of r c s]
    by (simp only: rc cr)
qed

text \<open>The 5 by 5 table with the blinker in the middle, stepped twice by both programs.\<close>

theorem blinker_oscillates_witness:
  "update_grid_full \<lparr>x_size = 5, y_size = 5, cells = map (map Cell) row_of_three_5\<rparr> =
     Inr \<lparr>x_size = 5, y_size = 5, cells = map (map Cell) column_of_three_5\<rparr> \<and>
   update_grid_full \<lparr>x_size = 5, y_size = 5, cells = map (map Cell) column_of_three_5\<rparr> =
     Inr \<lparr>x_size = 5, y_size = 5, cells = map (map Cell) row_of_three_5\<rparr> \<and>
   run_generation (life_of 5 5 row_of_three_5) = Inr (life_of 5 5 column_of_three_5) \<and>
   run_generation (life_of 5 5 column_of_three_5) = Inr (life_of 5 5 row_of_three_5)"
proof -
  have r: "blinker_row 5 5 2 2 = row_of_three_5"
    by code_simp
  have c: "blinker_column 5 5 2 2 = column_of_three_5"
    by code_simp
  have l: "life_of 5 5 t = (life_of 5 5 t)\<lparr>width := 5, height := 5, cells_table := fresh_rows t,
      prev_cells_table := fresh_rows t\<rparr>" for t
    by (simp add: life_of_def)
  have l': "(life_of 5 5 t)\<lparr>width := 5, height := 5, cells_table := fresh_rows t',
      prev_cells_table := fresh_rows t'\<rparr> = life_of 5 5 t'" for t t'
    by (simp add: life_of_def)
  have "(5::int) \<le> 5" "(1::int) \<le> 2" "(2::int) + 1 < 5"
    by simp_all
  from blinker_oscillates [OF this(1) this(1) this(2) this(3) this(2) this(3),
      of "life_of 5 5 row_of_three_5"]
  show ?thesis
    unfolding r c l' by (simp add: l' l [symmetric])
qed

lemma blinker_row_top: "blinker_row 5 5 0 2 = top_row_of_three"
  by code_simp

text \<open>
  Claim C9 as the spec states it fails when the row is an edge row. On the 5 by 5 grid
  with the three live cells in the top row, one step of either program leaves two live
  cells (the middle one and the one below it: there is no row above), not a line of
  three, and the second step leaves the grid all dead, not the original grid.
\<close>

theorem blinker_top_row_counterexample:
  "blinker_row 5 5 0 2 = top_row_of_three \<and>
   update_grid_full \<lparr>x_size = 5, y_size = 5, cells = map (map Cell) top_row_of_three\<rparr> =
     Inr \<lparr>x_size = 5, y_size = 5, cells = map (map Cell) top_two_cells\<rparr> \<and>
   update_grid_full \<lparr>x_size = 5, y_size = 5, cells = map (map Cell) top_two_cells\<rparr> =
     Inr \<lparr>x_size = 5, y_size = 5, cells = map (map Cell) (dead_table 5 5)\<rparr> \<and>
   run_generation (life_of 5 5 top_row_of_three) = Inr (life_of 5 5 top_two_cells) \<and>
   run_generation (life_of 5 5 top_two_cells) = Inr (life_of 5 5 (dead_table 5 5)) \<and>
   length (filter id (concat top_two_cells)) = 2 \<and> dead_table 5 5 \<noteq> top_row_of_three"
proof -
  have g1: "update_grid_full \<lparr>x_size = 5, y_size = 5, cells = map (map Cell) top_row_of_three\<rparr> =
     Inr \<lparr>x_size = 5, y_size = 5, cells = map (map Cell) top_two_cells\<rparr>"
    by code_simp
  have g2: "update_grid_full \<lparr>x_size = 5, y_size = 5, cells = map (map Cell) top_two_cells\<rparr> =
     Inr \<lparr>x_size = 5, y_size = 5, cells = map (map Cell) (dead_table 5 5)\<rparr>"
    by code_simp
  have m1: "run_generation (life_of 5 5 top_row_of_three) = Inr (life_of 5 5 top_two_cells)"
    by code_simp
  have m2: "run_generation (life_of 5 5 top_two_cells) = Inr (life_of 5 5 (dead_table 5 5))"
    by code_simp
  have n1: "length (filter id (concat top_two_cells)) = 2"
    by code_simp
  have n2: "dead_table 5 5 \<noteq> top_row_of_three"
    by code_simp
  show ?thesis
    using blinker_row_top g1 g2 m1 m2 n1 n2 by simp
qed

end
